theory Spec2Isabelle
  imports Complex_Main
begin

section \<open>The physics kernel of electro.js\<close>

text \<open>
  The kernel of \<^verbatim>\<open>src/electro.js\<close> (the second, magnet-aware version of the file:
  \<^verbatim>\<open>electricFieldAt\<close>, \<^verbatim>\<open>magneticFieldAt\<close>, \<^verbatim>\<open>totalMagneticFieldAt\<close>,
  \<^verbatim>\<open>computeAccelerations\<close>, \<^verbatim>\<open>stepPhysics\<close>, \<^verbatim>\<open>stepPhysicsRK4\<close>,
  \<^verbatim>\<open>stepPhysicsUsingFields\<close>) as HOL functions.

  Numbers. A JavaScript number is an IEEE binary64 number. The kernel is embedded
  twice. In the first embedding a number is a \<^typ>\<open>real\<close> and every operation is
  exact: it is the kernel in exact arithmetic, with no rounding, no overflow and no
  NaN; the one non-finite value the kernel is configured with,
  \<^verbatim>\<open>maxAccel = Infinity\<close>, is a constructor of its own, and where a divisor is 0 HOL's
  division yields 0, so that embedding speaks for the program only where the masses
  are nonzero and no softened distance is 0. In the second embedding (the
  definitions whose names end in \<open>64\<close>) a number is a binary64 number and every
  operation rounds as IEEE 754 prescribes. A property that does not turn on rounding
  is stated on the first; where a binary64 run departs from it, the run is
  evaluated on the second, and what then holds bit for bit is stated there.

  State. The functions mutate the charge objects in place; the model passes the
  array as a list of records and returns the updated list. The array holds
  distinct objects (each is pushed once by the UI), so a list of values is
  faithful.
\<close>

subsection \<open>Data\<close>

type_synonym vec = "real \<times> real"

datatype jsbound = Finite real | Infinity

record charge =
  x :: real
  y :: real
  vx :: real
  vy :: real
  ax :: real
  ay :: real
  q :: real
  m :: real
  pinned :: bool

record magnet =
  mag_x :: real
  mag_y :: real
  angle :: real
  strength :: real
  mag_pinned :: bool

text \<open>An options object: a key that is absent (\<^verbatim>\<open>undefined\<close>) is \<open>None\<close>.\<close>

record options =
  k :: "real option"
  softening :: "real option"
  damping :: "real option"
  maxAccel :: "jsbound option"

text \<open>The operator \<^verbatim>\<open>v ?? d\<close>.\<close>

definition nullish :: "'a option \<Rightarrow> 'a \<Rightarrow> 'a" where
  "nullish v d = (case v of None \<Rightarrow> d | Some w \<Rightarrow> w)"

text \<open>\<^verbatim>\<open>Math.hypot(a, b)\<close>.\<close>

definition hypot :: "real \<Rightarrow> real \<Rightarrow> real" where
  "hypot a b = sqrt (a * a + b * b)"

text \<open>The comparison \<^verbatim>\<open>mag > maxAccel\<close>.\<close>

fun exceeds :: "real \<Rightarrow> jsbound \<Rightarrow> bool" where
  "exceeds mag (Finite b) = (mag > b)"
| "exceeds mag Infinity = False"

subsection \<open>Field evaluation\<close>

text \<open>One iteration of the loop of \<^verbatim>\<open>electricFieldAt\<close>, on the accumulator \<open>(Ex, Ey)\<close>.\<close>

definition efieldBody :: "real \<Rightarrow> real \<Rightarrow> real \<Rightarrow> real \<Rightarrow> charge \<Rightarrow> vec \<Rightarrow> vec" where
  "efieldBody px py kk eps c E =
     (let dx = px - x c;
          dy = py - y c;
          r2 = dx * dx + dy * dy + eps * eps;
          invR3 = 1 / (sqrt r2 * r2);
          factor = kk * q c * invR3
      in (fst E + factor * dx, snd E + factor * dy))"

definition electricFieldAt :: "real \<Rightarrow> real \<Rightarrow> charge list \<Rightarrow> options \<Rightarrow> vec" where
  "electricFieldAt px py charges opts =
     (let kk = nullish (k opts) 1;
          eps = nullish (softening opts) (1 / 10)
      in fold (efieldBody px py kk eps) charges (0, 0))"

definition magneticFieldAt :: "real \<Rightarrow> real \<Rightarrow> magnet \<Rightarrow> options \<Rightarrow> vec" where
  "magneticFieldAt px py mag opts =
     (let soft = nullish (softening opts) (1 / 10);
          dx = px - mag_x mag;
          dy = py - mag_y mag;
          r2 = dx * dx + dy * dy + soft * soft;
          r = sqrt r2;
          mx = strength mag * cos (angle mag);
          my = strength mag * sin (angle mag);
          dot = mx * dx + my * dy;
          r5 = r2 * r2 * r;
          r3 = r2 * r;
          Bx = (3 * dot * dx / r5) - (mx / r3);
          By = (3 * dot * dy / r5) - (my / r3)
      in (Bx, By))"

definition totalMagneticFieldAt :: "real \<Rightarrow> real \<Rightarrow> magnet list \<Rightarrow> options \<Rightarrow> vec" where
  "totalMagneticFieldAt px py magnets opts =
     fold (\<lambda>mag B. let B1 = magneticFieldAt px py mag opts
                    in (fst B + fst B1, snd B + snd B1)) magnets (0, 0)"

subsection \<open>Accelerations\<close>

definition zeroAccel :: "charge \<Rightarrow> charge" where
  "zeroAccel c = c\<lparr>ax := 0, ay := 0\<rparr>"

text \<open>The force \<open>(fx, fy)\<close> on \<open>a\<close> due to \<open>b\<close>.\<close>

definition pairForce :: "real \<Rightarrow> real \<Rightarrow> charge \<Rightarrow> charge \<Rightarrow> vec" where
  "pairForce kk soft a b =
     (let dx = x a - x b;
          dy = y a - y b;
          r2 = dx * dx + dy * dy + soft * soft;
          r = sqrt r2;
          invR3 = 1 / (r * r2);
          force = kk * q a * q b * invR3
      in (force * dx, force * dy))"

text \<open>
  The acceleration increments of the two sides as first assigned, before either
  clamp: \<open>(ax_inc, ay_inc)\<close> and \<open>(bx_inc, by_inc)\<close>.
\<close>

definition pairIncs :: "real \<Rightarrow> real \<Rightarrow> charge \<Rightarrow> charge \<Rightarrow> vec \<times> vec" where
  "pairIncs kk soft a b =
     (let f = pairForce kk soft a b
      in ((fst f / m a, snd f / m a), (- fst f / m b, - snd f / m b)))"

text \<open>
  The clamp of one increment: \<^verbatim>\<open>if (mag > maxAccel) { s = maxAccel / mag; ... }\<close>.
  No magnitude exceeds \<^verbatim>\<open>Infinity\<close>, so that bound never scales.
\<close>

fun clampInc :: "jsbound \<Rightarrow> vec \<Rightarrow> vec" where
  "clampInc Infinity inc = inc"
| "clampInc (Finite b) inc =
     (let mag = hypot (fst inc) (snd inc)
      in if exceeds mag (Finite b) then (let s = b / mag in (fst inc * s, snd inc * s)) else inc)"

text \<open>The body of the inner pair loop, for the indices \<open>i\<close> and \<open>j\<close>.\<close>

definition pairStep :: "real \<Rightarrow> real \<Rightarrow> jsbound \<Rightarrow> nat \<Rightarrow> nat \<Rightarrow> charge list \<Rightarrow> charge list" where
  "pairStep kk soft cap i j cs =
     (let a = cs ! i;
          b = cs ! j;
          incs = pairIncs kk soft a b;
          ainc = clampInc cap (fst incs);
          binc = clampInc cap (snd incs);
          cs1 = cs[i := (cs ! i)\<lparr>ax := ax (cs ! i) + fst ainc, ay := ay (cs ! i) + snd ainc\<rparr>]
      in cs1[j := (cs1 ! j)\<lparr>ax := ax (cs1 ! j) + fst binc, ay := ay (cs1 ! j) + snd binc\<rparr>])"

definition pairLoop :: "real \<Rightarrow> real \<Rightarrow> jsbound \<Rightarrow> charge list \<Rightarrow> charge list" where
  "pairLoop kk soft cap cs =
     fold (\<lambda>i cs1. fold (pairStep kk soft cap i) [Suc i..<length cs] cs1) [0..<length cs] cs"

text \<open>The body of the magnetic loop, for one charge.\<close>

definition lorentzStep :: "magnet list \<Rightarrow> options \<Rightarrow> charge \<Rightarrow> charge" where
  "lorentzStep magnets opts c =
     (let B = totalMagneticFieldAt (x c) (y c) magnets opts;
          Bmag = hypot (fst B) (snd B);
          vmag = hypot (vx c) (vy c)
      in if vmag > 0 \<and> Bmag > 0
         then (let perp_x = - vy c;
                   perp_y = vx c;
                   perp_mag = hypot perp_x perp_y;
                   fx = q c * (perp_x / perp_mag) * Bmag * vmag;
                   fy = q c * (perp_y / perp_mag) * Bmag * vmag
               in c\<lparr>ax := ax c + fx / m c, ay := ay c + fy / m c\<rparr>)
         else c)"

definition computeAccelerations :: "charge list \<Rightarrow> magnet list \<Rightarrow> options \<Rightarrow> charge list" where
  "computeAccelerations charges magnets opts =
     (let kk = nullish (k opts) 1;
          soft = nullish (softening opts) (1 / 10);
          cap = nullish (maxAccel opts) (Finite 2000);
          cs0 = map zeroAccel charges;
          cs1 = pairLoop kk soft cap cs0
      in map (lorentzStep magnets opts) cs1)"

subsection \<open>The Euler step\<close>

text \<open>The body of the integration loop, for one charge \<open>p\<close>.\<close>

definition integrate :: "real \<Rightarrow> real \<Rightarrow> charge \<Rightarrow> charge" where
  "integrate damp dt p =
     (if pinned p then p
      else (let p1 = p\<lparr>vx := vx p + ax p * dt, vy := vy p + ay p * dt\<rparr>;
                p2 = p1\<lparr>vx := vx p1 * damp, vy := vy p1 * damp\<rparr>
            in p2\<lparr>x := x p2 + vx p2 * dt, y := y p2 + vy p2 * dt\<rparr>))"

definition stepPhysics :: "charge list \<Rightarrow> magnet list \<Rightarrow> real \<Rightarrow> options \<Rightarrow> charge list" where
  "stepPhysics charges magnets dt opts =
     (let damp = nullish (damping opts) 1
      in map (integrate damp dt) (computeAccelerations charges magnets opts))"

subsection \<open>The RK4 step\<close>

text \<open>
  An entry of \<^verbatim>\<open>state0\<close> or of a stage array \<^verbatim>\<open>k1 .. k4\<close>: an object with the
  keys \<^verbatim>\<open>x, y, vx, vy\<close>.
\<close>

record quad =
  qx :: real
  qy :: real
  qvx :: real
  qvy :: real

definition snapshot :: "charge \<Rightarrow> quad" where
  "snapshot c = \<lparr>qx = x c, qy = y c, qvx = vx c, qvy = vy c\<rparr>"

text \<open>\<^verbatim>\<open>{vx: c.ax, vy: c.ay, x: c.vx, y: c.vy}\<close>.\<close>

definition stageDeriv :: "charge \<Rightarrow> quad" where
  "stageDeriv c = \<lparr>qx = vx c, qy = vy c, qvx = ax c, qvy = ay c\<rparr>"

text \<open>
  The update that moves the charges to the next stage point, with \<open>h\<close> the factor
  \<^verbatim>\<open>0.5 * dt\<close> or \<^verbatim>\<open>dt\<close> and \<open>kq\<close> the previous stage array.
\<close>

definition moveTo :: "real \<Rightarrow> quad list \<Rightarrow> quad list \<Rightarrow> charge list \<Rightarrow> charge list" where
  "moveTo h state0 kq charges =
     map (\<lambda>i. if pinned (charges ! i) then charges ! i
              else (charges ! i)\<lparr>x := qx (state0 ! i) + h * qx (kq ! i),
                                 y := qy (state0 ! i) + h * qy (kq ! i),
                                 vx := qvx (state0 ! i) + h * qvx (kq ! i),
                                 vy := qvy (state0 ! i) + h * qvy (kq ! i)\<rparr>)
         [0..<length charges]"

definition combine ::
  "real \<Rightarrow> real \<Rightarrow> quad list \<Rightarrow> quad list \<Rightarrow> quad list \<Rightarrow> quad list \<Rightarrow> quad list \<Rightarrow>
   charge list \<Rightarrow> charge list" where
  "combine damp dt state0 k1 k2 k3 k4 charges =
     map (\<lambda>i. if pinned (charges ! i) then charges ! i
              else (let s = state0 ! i;
                        dxdt = (qx (k1 ! i) + 2 * qx (k2 ! i) + 2 * qx (k3 ! i) + qx (k4 ! i)) / 6;
                        dydt = (qy (k1 ! i) + 2 * qy (k2 ! i) + 2 * qy (k3 ! i) + qy (k4 ! i)) / 6;
                        dvxdt = (qvx (k1 ! i) + 2 * qvx (k2 ! i) + 2 * qvx (k3 ! i) + qvx (k4 ! i)) / 6;
                        dvydt = (qvy (k1 ! i) + 2 * qvy (k2 ! i) + 2 * qvy (k3 ! i) + qvy (k4 ! i)) / 6
                    in (charges ! i)\<lparr>x := qx s + dt * dxdt,
                                      y := qy s + dt * dydt,
                                      vx := (qvx s + dt * dvxdt) * damp,
                                      vy := (qvy s + dt * dvydt) * damp\<rparr>))
         [0..<length charges]"

definition stepPhysicsRK4 :: "charge list \<Rightarrow> magnet list \<Rightarrow> real \<Rightarrow> options \<Rightarrow> charge list" where
  "stepPhysicsRK4 charges magnets dt opts =
     (let damp = nullish (damping opts) 1;
          state0 = map snapshot charges;
          c1 = computeAccelerations charges magnets opts;
          k1 = map stageDeriv c1;
          c2 = computeAccelerations (moveTo (1 / 2 * dt) state0 k1 c1) magnets opts;
          k2 = map stageDeriv c2;
          c3 = computeAccelerations (moveTo (1 / 2 * dt) state0 k2 c2) magnets opts;
          k3 = map stageDeriv c3;
          c4 = computeAccelerations (moveTo dt state0 k3 c3) magnets opts;
          k4 = map stageDeriv c4
      in combine damp dt state0 k1 k2 k3 k4 c4)"

subsection \<open>The field-based step\<close>

text \<open>The inner loop of \<^verbatim>\<open>stepPhysicsUsingFields\<close>: the field at charge \<open>i\<close> from the others.\<close>

definition fieldFromOthers :: "real \<Rightarrow> real \<Rightarrow> nat \<Rightarrow> charge list \<Rightarrow> vec" where
  "fieldFromOthers kk soft i cs =
     fold (\<lambda>j E. if i = j then E
                 else (let c = cs ! i;
                           oc = cs ! j;
                           dx = x c - x oc;
                           dy = y c - y oc;
                           r2 = dx * dx + dy * dy + soft * soft;
                           invR3 = 1 / (sqrt r2 * r2);
                           factor = kk * q oc * invR3
                       in (fst E + factor * dx, snd E + factor * dy)))
          [0..<length cs] (0, 0)"

definition fieldStep :: "real \<Rightarrow> real \<Rightarrow> nat \<Rightarrow> charge list \<Rightarrow> charge list" where
  "fieldStep kk soft i cs =
     (let c = cs ! i;
          E = fieldFromOthers kk soft i cs;
          fx = q c * fst E;
          fy = q c * snd E
      in cs[i := c\<lparr>ax := fx / m c, ay := fy / m c\<rparr>])"

definition stepPhysicsUsingFields :: "charge list \<Rightarrow> real \<Rightarrow> options \<Rightarrow> charge list" where
  "stepPhysicsUsingFields charges dt opts =
     (let kk = nullish (k opts) 1;
          soft = nullish (softening opts) (1 / 10);
          damp = nullish (damping opts) 1;
          cs0 = map zeroAccel charges;
          cs1 = fold (fieldStep kk soft) [0..<length charges] cs0
      in map (integrate damp dt) cs1)"

subsection \<open>The stepper\<close>

text \<open>
  The dispatch of the animation loop: \<^verbatim>\<open>if (useRK4) stepPhysicsRK4(...) else stepPhysics(...)\<close>.
\<close>

definition stepper :: "bool \<Rightarrow> charge list \<Rightarrow> magnet list \<Rightarrow> real \<Rightarrow> options \<Rightarrow> charge list" where
  "stepper useRK4 charges magnets dt opts =
     (if useRK4 then stepPhysicsRK4 charges magnets dt opts
      else stepPhysics charges magnets dt opts)"

text \<open>
  A finite sequence of step calls on the same array; each call has its own integrator
  choice, magnet set, time step and options.
\<close>

fun runSteps :: "(bool \<times> magnet list \<times> real \<times> options) list \<Rightarrow> charge list \<Rightarrow> charge list" where
  "runSteps [] charges = charges"
| "runSteps ((useRK4, magnets, dt, opts) # calls) charges =
     runSteps calls (stepper useRK4 charges magnets dt opts)"

subsection \<open>Binary64 numbers\<close>

text \<open>
  A JavaScript number as it is: a finite binary64 value \<open>Num r\<close> (with \<open>r\<close> the real it
  denotes), \<^verbatim>\<open>Infinity\<close>, \<^verbatim>\<open>-Infinity\<close> or \<^verbatim>\<open>NaN\<close>. Every operation computes the exact
  result and rounds it to the nearest binary64 value, ties to even, as IEEE 754
  prescribes. Two things are left out: the sign of zero (\<open>-0\<close> is \<open>Num 0\<close>; it would
  matter only as a divisor), and the freedom the language gives \<^verbatim>\<open>Math.hypot\<close>,
  \<^verbatim>\<open>Math.cos\<close> and \<^verbatim>\<open>Math.sin\<close> to be approximate: they are taken correctly rounded,
  and are evaluated below only where every implementation is exact
  (\<open>hypot(3, 4)\<close>, \<open>hypot(a, 0)\<close>, \<open>cos 0\<close>, \<open>sin 0\<close>).
\<close>

datatype f64 = Num real | PInf | NInf | NaN

text \<open>The power \<open>2\<^sup>i\<close> for an integer \<open>i\<close>.\<close>

definition pow2 :: "int \<Rightarrow> real" where
  "pow2 i = (if 0 \<le> i then 2 ^ nat i else 1 / 2 ^ nat (- i))"

text \<open>
  The exponent of the binade of \<open>r\<close>, not below that of the subnormal numbers:
  \<open>2\<^sup>e \<le> |r| < 2\<^sup>e\<^sup>+\<^sup>1\<close> for a normal \<open>r\<close>.
\<close>

definition expo :: "real \<Rightarrow> int" where
  "expo r = max \<lfloor>log 2 \<bar>r\<bar>\<rfloor> (- 1022)"

text \<open>The nearest integer, a tie going to the even one.\<close>

definition rhe :: "real \<Rightarrow> int" where
  "rhe r = (let f = \<lfloor>r\<rfloor>; d = r - of_int f
            in if d < 1 / 2 then f else if 1 / 2 < d then f + 1
               else if even f then f else f + 1)"

text \<open>
  Rounding of an exact result to binary64: to the nearest multiple of
  \<open>2\<^sup>e\<^sup>-\<^sup>5\<^sup>2\<close> (53 significant bits), and to an infinity from \<open>2\<^sup>1\<^sup>0\<^sup>2\<^sup>4\<close> on.
\<close>

definition rnd :: "real \<Rightarrow> f64" where
  "rnd r = (if r = 0 then Num 0
            else (let u = pow2 (expo r - 52); v = of_int (rhe (r / u)) * u
                  in if pow2 1024 \<le> \<bar>v\<bar> then (if 0 < r then PInf else NInf) else Num v))"

fun fneg :: "f64 \<Rightarrow> f64" where
  "fneg (Num a) = Num (- a)"
| "fneg PInf = NInf"
| "fneg NInf = PInf"
| "fneg NaN = NaN"

fun fadd :: "f64 \<Rightarrow> f64 \<Rightarrow> f64" where
  "fadd (Num a) (Num b) = rnd (a + b)"
| "fadd NaN b = NaN"
| "fadd a NaN = NaN"
| "fadd PInf NInf = NaN"
| "fadd NInf PInf = NaN"
| "fadd PInf b = PInf"
| "fadd a PInf = PInf"
| "fadd NInf b = NInf"
| "fadd a NInf = NInf"

fun fmul :: "f64 \<Rightarrow> f64 \<Rightarrow> f64" where
  "fmul (Num a) (Num b) = rnd (a * b)"
| "fmul NaN b = NaN"
| "fmul a NaN = NaN"
| "fmul (Num a) PInf = (if a = 0 then NaN else if 0 < a then PInf else NInf)"
| "fmul (Num a) NInf = (if a = 0 then NaN else if 0 < a then NInf else PInf)"
| "fmul PInf (Num b) = (if b = 0 then NaN else if 0 < b then PInf else NInf)"
| "fmul NInf (Num b) = (if b = 0 then NaN else if 0 < b then NInf else PInf)"
| "fmul PInf PInf = PInf"
| "fmul PInf NInf = NInf"
| "fmul NInf PInf = NInf"
| "fmul NInf NInf = PInf"

fun fdiv :: "f64 \<Rightarrow> f64 \<Rightarrow> f64" where
  "fdiv (Num a) (Num b) =
     (if b = 0 then (if a = 0 then NaN else if 0 < a then PInf else NInf) else rnd (a / b))"
| "fdiv NaN b = NaN"
| "fdiv a NaN = NaN"
| "fdiv (Num a) PInf = Num 0"
| "fdiv (Num a) NInf = Num 0"
| "fdiv PInf (Num b) = (if 0 \<le> b then PInf else NInf)"
| "fdiv NInf (Num b) = (if 0 \<le> b then NInf else PInf)"
| "fdiv PInf b = NaN"
| "fdiv NInf b = NaN"

text \<open>\<^verbatim>\<open>Math.sqrt\<close>.\<close>

fun fsqrt :: "f64 \<Rightarrow> f64" where
  "fsqrt (Num a) = (if a < 0 then NaN else rnd (sqrt a))"
| "fsqrt PInf = PInf"
| "fsqrt NInf = NaN"
| "fsqrt NaN = NaN"

text \<open>The comparison \<^verbatim>\<open>a < b\<close>; it is false when either side is NaN.\<close>

fun flt :: "f64 \<Rightarrow> f64 \<Rightarrow> bool" where
  "flt (Num a) (Num b) = (a < b)"
| "flt NaN b = False"
| "flt a NaN = False"
| "flt a NInf = False"
| "flt PInf b = False"
| "flt NInf b = True"
| "flt a PInf = True"

text \<open>\<^verbatim>\<open>Math.hypot(a, b)\<close>: an infinite argument gives \<^verbatim>\<open>Infinity\<close>, even beside a NaN.\<close>

fun hypot64 :: "f64 \<Rightarrow> f64 \<Rightarrow> f64" where
  "hypot64 (Num a) (Num b) = rnd (sqrt (a * a + b * b))"
| "hypot64 PInf b = PInf"
| "hypot64 NInf b = PInf"
| "hypot64 a PInf = PInf"
| "hypot64 a NInf = PInf"
| "hypot64 NaN b = NaN"
| "hypot64 a NaN = NaN"

text \<open>\<^verbatim>\<open>Math.cos\<close> and \<^verbatim>\<open>Math.sin\<close>.\<close>

fun fcos :: "f64 \<Rightarrow> f64" where
  "fcos (Num a) = rnd (cos a)"
| "fcos a = NaN"

fun fsin :: "f64 \<Rightarrow> f64" where
  "fsin (Num a) = rnd (sin a)"
| "fsin a = NaN"

text \<open>The operators \<^verbatim>\<open>+ - * / <\<close> of the source, on binary64 numbers.\<close>

instantiation f64 :: "{plus, minus, uminus, times, inverse, ord}"
begin

definition plus_f64 :: "f64 \<Rightarrow> f64 \<Rightarrow> f64" where
  "plus_f64 a b = fadd a b"

definition uminus_f64 :: "f64 \<Rightarrow> f64" where
  "uminus_f64 a = fneg a"

definition minus_f64 :: "f64 \<Rightarrow> f64 \<Rightarrow> f64" where
  "minus_f64 a b = fadd a (fneg b)"

definition times_f64 :: "f64 \<Rightarrow> f64 \<Rightarrow> f64" where
  "times_f64 a b = fmul a b"

definition divide_f64 :: "f64 \<Rightarrow> f64 \<Rightarrow> f64" where
  "divide_f64 a b = fdiv a b"

definition inverse_f64 :: "f64 \<Rightarrow> f64" where
  "inverse_f64 a = fdiv (Num 1) a"

definition less_f64 :: "f64 \<Rightarrow> f64 \<Rightarrow> bool" where
  "less_f64 a b = flt a b"

definition less_eq_f64 :: "f64 \<Rightarrow> f64 \<Rightarrow> bool" where
  "less_eq_f64 a b = (flt a b \<or> (a = b \<and> a \<noteq> NaN))"

instance ..

end

text \<open>A finite binary64 number: rounding leaves it as it is.\<close>

fun isDouble :: "f64 \<Rightarrow> bool" where
  "isDouble (Num r) = (rnd r = Num r)"
| "isDouble a = False"

subsection \<open>The kernel over binary64\<close>

text \<open>
  The same functions of \<^verbatim>\<open>src/electro.js\<close>, operation for operation and in the
  source's order, on binary64 numbers. The pair force, its two increments and the
  two clamps are written out in the body of the pair loop, as the source has them.
\<close>

type_synonym vec64 = "f64 \<times> f64"

record charge64 =
  x64 :: f64
  y64 :: f64
  vx64 :: f64
  vy64 :: f64
  ax64 :: f64
  ay64 :: f64
  q64 :: f64
  m64 :: f64
  pinned64 :: bool

record magnet64 =
  mag_x64 :: f64
  mag_y64 :: f64
  angle64 :: f64
  strength64 :: f64
  mag_pinned64 :: bool

record options64 =
  k64 :: "f64 option"
  softening64 :: "f64 option"
  damping64 :: "f64 option"
  maxAccel64 :: "f64 option"

text \<open>The literal \<^verbatim>\<open>0.1\<close>: the binary64 number nearest to one tenth.\<close>

definition tenth64 :: f64 where
  "tenth64 = Num (3602879701896397 / 36028797018963968)"

definition efieldBody64 :: "f64 \<Rightarrow> f64 \<Rightarrow> f64 \<Rightarrow> f64 \<Rightarrow> charge64 \<Rightarrow> vec64 \<Rightarrow> vec64" where
  "efieldBody64 px py kk eps c E =
     (let dx = px - x64 c;
          dy = py - y64 c;
          r2 = dx * dx + dy * dy + eps * eps;
          invR3 = Num 1 / (fsqrt r2 * r2);
          factor = kk * q64 c * invR3
      in (fst E + factor * dx, snd E + factor * dy))"

definition electricFieldAt64 :: "f64 \<Rightarrow> f64 \<Rightarrow> charge64 list \<Rightarrow> options64 \<Rightarrow> vec64" where
  "electricFieldAt64 px py charges opts =
     (let kk = nullish (k64 opts) (Num 1);
          eps = nullish (softening64 opts) tenth64
      in fold (efieldBody64 px py kk eps) charges (Num 0, Num 0))"

definition magneticFieldAt64 :: "f64 \<Rightarrow> f64 \<Rightarrow> magnet64 \<Rightarrow> options64 \<Rightarrow> vec64" where
  "magneticFieldAt64 px py mag opts =
     (let soft = nullish (softening64 opts) tenth64;
          dx = px - mag_x64 mag;
          dy = py - mag_y64 mag;
          r2 = dx * dx + dy * dy + soft * soft;
          r = fsqrt r2;
          mx = strength64 mag * fcos (angle64 mag);
          my = strength64 mag * fsin (angle64 mag);
          dot = mx * dx + my * dy;
          r5 = r2 * r2 * r;
          r3 = r2 * r;
          Bx = (Num 3 * dot * dx / r5) - (mx / r3);
          By = (Num 3 * dot * dy / r5) - (my / r3)
      in (Bx, By))"

definition totalMagneticFieldAt64 :: "f64 \<Rightarrow> f64 \<Rightarrow> magnet64 list \<Rightarrow> options64 \<Rightarrow> vec64" where
  "totalMagneticFieldAt64 px py magnets opts =
     fold (\<lambda>mag B. let B1 = magneticFieldAt64 px py mag opts
                    in (fst B + fst B1, snd B + snd B1)) magnets (Num 0, Num 0)"

text \<open>The body of the inner pair loop; \<open>cap < magA\<close> is the source's \<^verbatim>\<open>magA > maxAccel\<close>.\<close>

definition pairStep64 :: "f64 \<Rightarrow> f64 \<Rightarrow> f64 \<Rightarrow> nat \<Rightarrow> nat \<Rightarrow> charge64 list \<Rightarrow> charge64 list" where
  "pairStep64 kk soft cap i j cs =
     (let a = cs ! i;
          b = cs ! j;
          dx = x64 a - x64 b;
          dy = y64 a - y64 b;
          r2 = dx * dx + dy * dy + soft * soft;
          r = fsqrt r2;
          invR3 = Num 1 / (r * r2);
          force = kk * q64 a * q64 b * invR3;
          fx = force * dx;
          fy = force * dy;
          ax_inc = fx / m64 a;
          ay_inc = fy / m64 a;
          magA = hypot64 ax_inc ay_inc;
          ainc = (if cap < magA then (let s = cap / magA in (ax_inc * s, ay_inc * s))
                  else (ax_inc, ay_inc));
          bx_inc = - fx / m64 b;
          by_inc = - fy / m64 b;
          magB = hypot64 bx_inc by_inc;
          binc = (if cap < magB then (let s = cap / magB in (bx_inc * s, by_inc * s))
                  else (bx_inc, by_inc));
          cs1 = cs[i := (cs ! i)\<lparr>ax64 := ax64 (cs ! i) + fst ainc, ay64 := ay64 (cs ! i) + snd ainc\<rparr>]
      in cs1[j := (cs1 ! j)\<lparr>ax64 := ax64 (cs1 ! j) + fst binc, ay64 := ay64 (cs1 ! j) + snd binc\<rparr>])"

definition lorentzStep64 :: "magnet64 list \<Rightarrow> options64 \<Rightarrow> charge64 \<Rightarrow> charge64" where
  "lorentzStep64 magnets opts c =
     (let B = totalMagneticFieldAt64 (x64 c) (y64 c) magnets opts;
          Bmag = hypot64 (fst B) (snd B);
          vmag = hypot64 (vx64 c) (vy64 c)
      in if Num 0 < vmag \<and> Num 0 < Bmag
         then (let perp_x = - vy64 c;
                   perp_y = vx64 c;
                   perp_mag = hypot64 perp_x perp_y;
                   fx = q64 c * (perp_x / perp_mag) * Bmag * vmag;
                   fy = q64 c * (perp_y / perp_mag) * Bmag * vmag
               in c\<lparr>ax64 := ax64 c + fx / m64 c, ay64 := ay64 c + fy / m64 c\<rparr>)
         else c)"

definition computeAccelerations64 :: "charge64 list \<Rightarrow> magnet64 list \<Rightarrow> options64 \<Rightarrow> charge64 list" where
  "computeAccelerations64 charges magnets opts =
     (let kk = nullish (k64 opts) (Num 1);
          soft = nullish (softening64 opts) tenth64;
          cap = nullish (maxAccel64 opts) (Num 2000);
          cs0 = map (\<lambda>c. c\<lparr>ax64 := Num 0, ay64 := Num 0\<rparr>) charges;
          cs1 = fold (\<lambda>i cs. fold (pairStep64 kk soft cap i) [Suc i..<length charges] cs)
                  [0..<length charges] cs0
      in map (lorentzStep64 magnets opts) cs1)"

definition integrate64 :: "f64 \<Rightarrow> f64 \<Rightarrow> charge64 \<Rightarrow> charge64" where
  "integrate64 damp dt p =
     (if pinned64 p then p
      else (let p1 = p\<lparr>vx64 := vx64 p + ax64 p * dt, vy64 := vy64 p + ay64 p * dt\<rparr>;
                p2 = p1\<lparr>vx64 := vx64 p1 * damp, vy64 := vy64 p1 * damp\<rparr>
            in p2\<lparr>x64 := x64 p2 + vx64 p2 * dt, y64 := y64 p2 + vy64 p2 * dt\<rparr>))"

definition stepPhysics64 :: "charge64 list \<Rightarrow> magnet64 list \<Rightarrow> f64 \<Rightarrow> options64 \<Rightarrow> charge64 list" where
  "stepPhysics64 charges magnets dt opts =
     (let damp = nullish (damping64 opts) (Num 1)
      in map (integrate64 damp dt) (computeAccelerations64 charges magnets opts))"

record quad64 =
  qx64 :: f64
  qy64 :: f64
  qvx64 :: f64
  qvy64 :: f64

definition snapshot64 :: "charge64 \<Rightarrow> quad64" where
  "snapshot64 c = \<lparr>qx64 = x64 c, qy64 = y64 c, qvx64 = vx64 c, qvy64 = vy64 c\<rparr>"

definition stageDeriv64 :: "charge64 \<Rightarrow> quad64" where
  "stageDeriv64 c = \<lparr>qx64 = vx64 c, qy64 = vy64 c, qvx64 = ax64 c, qvy64 = ay64 c\<rparr>"

definition moveTo64 :: "f64 \<Rightarrow> quad64 list \<Rightarrow> quad64 list \<Rightarrow> charge64 list \<Rightarrow> charge64 list" where
  "moveTo64 h state0 kq charges =
     map (\<lambda>i. if pinned64 (charges ! i) then charges ! i
              else (charges ! i)\<lparr>x64 := qx64 (state0 ! i) + h * qx64 (kq ! i),
                                 y64 := qy64 (state0 ! i) + h * qy64 (kq ! i),
                                 vx64 := qvx64 (state0 ! i) + h * qvx64 (kq ! i),
                                 vy64 := qvy64 (state0 ! i) + h * qvy64 (kq ! i)\<rparr>)
         [0..<length charges]"

definition combine64 ::
  "f64 \<Rightarrow> f64 \<Rightarrow> quad64 list \<Rightarrow> quad64 list \<Rightarrow> quad64 list \<Rightarrow> quad64 list \<Rightarrow> quad64 list \<Rightarrow>
   charge64 list \<Rightarrow> charge64 list" where
  "combine64 damp dt state0 k1 k2 k3 k4 charges =
     map (\<lambda>i. if pinned64 (charges ! i) then charges ! i
              else (let s = state0 ! i;
                        dxdt = (qx64 (k1 ! i) + Num 2 * qx64 (k2 ! i) + Num 2 * qx64 (k3 ! i)
                                  + qx64 (k4 ! i)) / Num 6;
                        dydt = (qy64 (k1 ! i) + Num 2 * qy64 (k2 ! i) + Num 2 * qy64 (k3 ! i)
                                  + qy64 (k4 ! i)) / Num 6;
                        dvxdt = (qvx64 (k1 ! i) + Num 2 * qvx64 (k2 ! i) + Num 2 * qvx64 (k3 ! i)
                                  + qvx64 (k4 ! i)) / Num 6;
                        dvydt = (qvy64 (k1 ! i) + Num 2 * qvy64 (k2 ! i) + Num 2 * qvy64 (k3 ! i)
                                  + qvy64 (k4 ! i)) / Num 6
                    in (charges ! i)\<lparr>x64 := qx64 s + dt * dxdt,
                                      y64 := qy64 s + dt * dydt,
                                      vx64 := (qvx64 s + dt * dvxdt) * damp,
                                      vy64 := (qvy64 s + dt * dvydt) * damp\<rparr>))
         [0..<length charges]"

definition stepPhysicsRK4_64 :: "charge64 list \<Rightarrow> magnet64 list \<Rightarrow> f64 \<Rightarrow> options64 \<Rightarrow> charge64 list" where
  "stepPhysicsRK4_64 charges magnets dt opts =
     (let damp = nullish (damping64 opts) (Num 1);
          state0 = map snapshot64 charges;
          c1 = computeAccelerations64 charges magnets opts;
          k1 = map stageDeriv64 c1;
          c2 = computeAccelerations64 (moveTo64 (Num (1 / 2) * dt) state0 k1 c1) magnets opts;
          k2 = map stageDeriv64 c2;
          c3 = computeAccelerations64 (moveTo64 (Num (1 / 2) * dt) state0 k2 c2) magnets opts;
          k3 = map stageDeriv64 c3;
          c4 = computeAccelerations64 (moveTo64 dt state0 k3 c3) magnets opts;
          k4 = map stageDeriv64 c4
      in combine64 damp dt state0 k1 k2 k3 k4 c4)"

definition fieldFromOthers64 :: "f64 \<Rightarrow> f64 \<Rightarrow> nat \<Rightarrow> charge64 list \<Rightarrow> vec64" where
  "fieldFromOthers64 kk soft i cs =
     fold (\<lambda>j E. if i = j then E
                 else (let c = cs ! i;
                           oc = cs ! j;
                           dx = x64 c - x64 oc;
                           dy = y64 c - y64 oc;
                           r2 = dx * dx + dy * dy + soft * soft;
                           invR3 = Num 1 / (fsqrt r2 * r2);
                           factor = kk * q64 oc * invR3
                       in (fst E + factor * dx, snd E + factor * dy)))
          [0..<length cs] (Num 0, Num 0)"

definition fieldStep64 :: "f64 \<Rightarrow> f64 \<Rightarrow> nat \<Rightarrow> charge64 list \<Rightarrow> charge64 list" where
  "fieldStep64 kk soft i cs =
     (let c = cs ! i;
          E = fieldFromOthers64 kk soft i cs;
          fx = q64 c * fst E;
          fy = q64 c * snd E
      in cs[i := c\<lparr>ax64 := fx / m64 c, ay64 := fy / m64 c\<rparr>])"

definition stepPhysicsUsingFields64 :: "charge64 list \<Rightarrow> f64 \<Rightarrow> options64 \<Rightarrow> charge64 list" where
  "stepPhysicsUsingFields64 charges dt opts =
     (let kk = nullish (k64 opts) (Num 1);
          soft = nullish (softening64 opts) tenth64;
          damp = nullish (damping64 opts) (Num 1);
          cs0 = map (\<lambda>c. c\<lparr>ax64 := Num 0, ay64 := Num 0\<rparr>) charges;
          cs1 = fold (fieldStep64 kk soft) [0..<length charges] cs0
      in map (integrate64 damp dt) cs1)"

subsection \<open>Notions used to state the properties\<close>

text \<open>Two charge records with the same position and velocity.\<close>

definition samePosVel :: "charge \<Rightarrow> charge \<Rightarrow> bool" where
  "samePosVel c c1 \<longleftrightarrow> x c1 = x c \<and> y c1 = y c \<and> vx c1 = vx c \<and> vy c1 = vy c"



text \<open>
  No clamp fires: for every pair \<open>i < j\<close> neither side's increment has a magnitude
  above \<^verbatim>\<open>maxAccel\<close>.
\<close>

definition noClampFires :: "charge list \<Rightarrow> options \<Rightarrow> bool" where
  "noClampFires charges opts \<longleftrightarrow>
     (\<forall>i \<in> {0..<length charges}. \<forall>j \<in> {Suc i..<length charges}.
        \<not> exceeds (hypot (fst (fst (pairIncs (nullish (k opts) 1) (nullish (softening opts) (1 / 10))
                                       (charges ! i) (charges ! j))))
                          (snd (fst (pairIncs (nullish (k opts) 1) (nullish (softening opts) (1 / 10))
                                       (charges ! i) (charges ! j)))))
                   (nullish (maxAccel opts) (Finite 2000)) \<and>
        \<not> exceeds (hypot (fst (snd (pairIncs (nullish (k opts) 1) (nullish (softening opts) (1 / 10))
                                       (charges ! i) (charges ! j))))
                          (snd (snd (pairIncs (nullish (k opts) 1) (nullish (softening opts) (1 / 10))
                                       (charges ! i) (charges ! j)))))
                   (nullish (maxAccel opts) (Finite 2000)))"

text \<open>The charges other than the one at index \<open>i\<close>, in order.\<close>

definition others :: "nat \<Rightarrow> charge list \<Rightarrow> charge list" where
  "others i charges = take i charges @ drop (Suc i) charges"

text \<open>
  Every pinned charge of \<open>cs\<close> is, in \<open>cs1\<close>, the same record up to its acceleration
  fields, and the arrays are equally long.
\<close>

definition pinnedKept :: "charge list \<Rightarrow> charge list \<Rightarrow> bool" where
  "pinnedKept cs cs1 \<longleftrightarrow>
     length cs1 = length cs \<and>
     (\<forall>i < length cs. pinned (cs ! i) \<longrightarrow> zeroAccel (cs1 ! i) = zeroAccel (cs ! i))"


text \<open>
  The divisions of the pair loop and of the field loop are defined: no mass is 0 and
  no two charges are at softened distance 0.
\<close>

definition nonSingular :: "charge list \<Rightarrow> options \<Rightarrow> bool" where
  "nonSingular charges opts \<longleftrightarrow>
     (\<forall>c \<in> set charges. m c \<noteq> 0) \<and>
     (\<forall>i \<in> {0..<length charges}. \<forall>j \<in> {0..<length charges}. i \<noteq> j \<longrightarrow>
        0 < (x (charges ! i) - x (charges ! j))\<^sup>2 + (y (charges ! i) - y (charges ! j))\<^sup>2
              + (nullish (softening opts) (1 / 10))\<^sup>2)"

subsection \<open>Sample data\<close>

definition demoFree :: charge where
  "demoFree = \<lparr>x = 1, y = 0, vx = 3, vy = 4, ax = 0, ay = 0, q = 1, m = 2, pinned = False\<rparr>"

definition demoRest :: charge where
  "demoRest = \<lparr>x = 0, y = 0, vx = 0, vy = 0, ax = 0, ay = 0, q = 1, m = 2, pinned = False\<rparr>"

definition demoPinned :: charge where
  "demoPinned = \<lparr>x = 10, y = 0, vx = 0, vy = 0, ax = 0, ay = 0, q = 1, m = 1, pinned = True\<rparr>"

definition demoMagnet :: magnet where
  "demoMagnet = \<lparr>mag_x = 0, mag_y = 0, angle = 0, strength = 1, mag_pinned = False\<rparr>"

definition demoOptions :: options where
  "demoOptions = \<lparr>k = Some 1, softening = Some 0, damping = Some 1, maxAccel = Some Infinity\<rparr>"

text \<open>
  Binary64 sample data. The fractions are the binary64 numbers that the decimal
  literals denote: \<^verbatim>\<open>0.1\<close> is \<open>3602879701896397 / 2\<^sup>5\<^sup>5\<close>, \<^verbatim>\<open>0.7\<close> is
  \<open>3152519739159347 / 2\<^sup>5\<^sup>2\<close>, \<^verbatim>\<open>0.15\<close> is \<open>5404319552844595 / 2\<^sup>5\<^sup>5\<close>.
\<close>

text \<open>A free charge at the origin with velocity \<^verbatim>\<open>(0.1, 0)\<close>; options with \<^verbatim>\<open>damping: 1\<close>.\<close>

definition drifting64 :: charge64 where
  "drifting64 = \<lparr>x64 = Num 0, y64 = Num 0, vx64 = Num (3602879701896397 / 36028797018963968),
     vy64 = Num 0, ax64 = Num 0, ay64 = Num 0, q64 = Num 1, m64 = Num 1, pinned64 = False\<rparr>"

definition undamped64 :: options64 where
  "undamped64 = \<lparr>k64 = None, softening64 = None, damping64 = Some (Num 1), maxAccel64 = None\<rparr>"

text \<open>
  Two charges at rest, \<^verbatim>\<open>q: 0.1\<close> at \<open>(0, 0)\<close> and \<^verbatim>\<open>q: 0.7\<close> at \<open>(3, 0)\<close>, of mass 1;
  options \<^verbatim>\<open>{k: 1, softening: 0, damping: 1, maxAccel: Infinity}\<close>.
\<close>

definition pairLeft64 :: charge64 where
  "pairLeft64 = \<lparr>x64 = Num 0, y64 = Num 0, vx64 = Num 0, vy64 = Num 0, ax64 = Num 0, ay64 = Num 0,
     q64 = Num (3602879701896397 / 36028797018963968), m64 = Num 1, pinned64 = False\<rparr>"

definition pairRight64 :: charge64 where
  "pairRight64 = \<lparr>x64 = Num 3, y64 = Num 0, vx64 = Num 0, vy64 = Num 0, ax64 = Num 0, ay64 = Num 0,
     q64 = Num (3152519739159347 / 4503599627370496), m64 = Num 1, pinned64 = False\<rparr>"

definition unclamped64 :: options64 where
  "unclamped64 = \<lparr>k64 = Some (Num 1), softening64 = Some (Num 0), damping64 = Some (Num 1),
     maxAccel64 = Some PInf\<rparr>"

text \<open>
  Two opposite charges, \<^verbatim>\<open>q: 0.1\<close> at \<open>(0, 0)\<close> and \<^verbatim>\<open>q: -0.1\<close> at \<open>(3, 1)\<close>, both at
  distance 5 from the point \<open>(0, 5)\<close>; a unit charge at the origin; options
  \<^verbatim>\<open>{k: 1, softening: 0}\<close>.
\<close>

definition dipolePlus64 :: charge64 where
  "dipolePlus64 = \<lparr>x64 = Num 0, y64 = Num 0, vx64 = Num 0, vy64 = Num 0, ax64 = Num 0, ay64 = Num 0,
     q64 = Num (3602879701896397 / 36028797018963968), m64 = Num 1, pinned64 = False\<rparr>"

definition dipoleMinus64 :: charge64 where
  "dipoleMinus64 = \<lparr>x64 = Num 3, y64 = Num 1, vx64 = Num 0, vy64 = Num 0, ax64 = Num 0, ay64 = Num 0,
     q64 = Num (- (3602879701896397 / 36028797018963968)), m64 = Num 1, pinned64 = False\<rparr>"

definition unit64 :: charge64 where
  "unit64 = \<lparr>x64 = Num 0, y64 = Num 0, vx64 = Num 0, vy64 = Num 0, ax64 = Num 0, ay64 = Num 0,
     q64 = Num 1, m64 = Num 1, pinned64 = False\<rparr>"

definition unsoftened64 :: options64 where
  "unsoftened64 = \<lparr>k64 = Some (Num 1), softening64 = Some (Num 0), damping64 = None,
     maxAccel64 = None\<rparr>"

text \<open>
  A charge \<^verbatim>\<open>q: 1.5\<close> of mass 1 at \<open>(1, 0)\<close> with velocity \<open>(3, 4)\<close>, and a magnet of
  strength \<^verbatim>\<open>0.15\<close> and angle 0 at the origin; options \<^verbatim>\<open>{softening: 0}\<close>.
\<close>

definition moving64 :: charge64 where
  "moving64 = \<lparr>x64 = Num 1, y64 = Num 0, vx64 = Num 3, vy64 = Num 4, ax64 = Num 0, ay64 = Num 0,
     q64 = Num (3 / 2), m64 = Num 1, pinned64 = False\<rparr>"

definition bar64 :: magnet64 where
  "bar64 = \<lparr>mag_x64 = Num 0, mag_y64 = Num 0, angle64 = Num 0,
     strength64 = Num (5404319552844595 / 36028797018963968), mag_pinned64 = False\<rparr>"

definition hard64 :: options64 where
  "hard64 = \<lparr>k64 = None, softening64 = Some (Num 0), damping64 = None, maxAccel64 = None\<rparr>"

section \<open>Properties\<close>

subsection \<open>Auxiliary facts\<close>

lemma hypot_pos_iff: "0 < hypot a b \<longleftrightarrow> a \<noteq> 0 \<or> b \<noteq> 0"
proof -
  have "0 < a * a + b * b \<longleftrightarrow> a \<noteq> 0 \<or> b \<noteq> 0"
    by (metis add_pos_nonneg add_nonneg_pos mult_eq_0_iff not_sum_squares_lt_zero
          less_le sum_squares_eq_zero_iff zero_le_square)
  then show ?thesis by (simp add: hypot_def)
qed

lemma hypot_zero [simp]: "hypot 0 0 = 0"
  by (simp add: hypot_def)

lemma sqrt_25: "sqrt 25 = 5"
  using real_sqrt_abs [of 5] by simp

lemma sqrt_100: "sqrt 100 = 10"
  using real_sqrt_abs [of 10] by simp

lemma upt_two: "[0..<2] = [0, Suc 0]" "[Suc 0..<2] = [Suc 0]" "[2..<2] = []"
  by (simp_all add: upt_rec numeral_2_eq_2)

lemma fold_add_pair:
  "fold (\<lambda>e B. (fst B + f e, snd B + g e)) es acc =
     (fst acc + sum_list (map f es), snd acc + sum_list (map g es))"
  by (induction es arbitrary: acc) (simp_all add: add.assoc)



lemma totalMagneticFieldAt_Nil [simp]: "totalMagneticFieldAt px py [] opts = (0, 0)"
  by (simp add: totalMagneticFieldAt_def)

lemma lorentzStep_Nil [simp]: "lorentzStep [] opts c = c"
  by (simp add: lorentzStep_def)

lemma computeAccelerations_single:
  "computeAccelerations [c] [] opts = [c\<lparr>ax := 0, ay := 0\<rparr>]"
  by (simp add: computeAccelerations_def pairLoop_def zeroAccel_def)

subsection \<open>What the accelerations leave alone\<close>

lemma zeroAccel_accel_update [simp]: "zeroAccel (c\<lparr>ax := u, ay := v\<rparr>) = zeroAccel c"
  by (simp add: zeroAccel_def)

lemma zeroAccel_idem [simp]: "zeroAccel (zeroAccel c) = zeroAccel c"
  by (simp add: zeroAccel_def)

lemma map_zeroAccel_update:
  "map zeroAccel (cs[i := (cs ! i)\<lparr>ax := u, ay := v\<rparr>]) = map zeroAccel cs"
proof (cases "i < length cs")
  case True
  then have "(map zeroAccel cs)[i := zeroAccel (cs ! i)] = map zeroAccel cs"
    by (metis list_update_id nth_map)
  then show ?thesis by (simp add: map_update)
next
  case False
  then show ?thesis by (simp add: list_update_beyond)
qed

lemma pairStep_frame: "map zeroAccel (pairStep kk soft cap i j cs) = map zeroAccel cs"
  by (simp add: pairStep_def Let_def map_zeroAccel_update)

lemma fold_frame:
  assumes "\<And>e cs. map zeroAccel (f e cs) = map zeroAccel cs"
  shows "map zeroAccel (fold f es cs) = map zeroAccel cs"
  by (induction es arbitrary: cs) (simp_all add: assms)

lemma pairLoop_frame: "map zeroAccel (pairLoop kk soft cap cs) = map zeroAccel cs"
  unfolding pairLoop_def
  by (rule fold_frame) (rule fold_frame, rule pairStep_frame)

lemma lorentzStep_frame: "zeroAccel (lorentzStep magnets opts c) = zeroAccel c"
  by (simp add: lorentzStep_def Let_def)

lemma computeAccelerations_frame:
  "map zeroAccel (computeAccelerations charges magnets opts) = map zeroAccel charges"
proof -
  have "map zeroAccel (map (lorentzStep magnets opts) cs) = map zeroAccel cs" for cs
    by (simp add: lorentzStep_frame)
  moreover have "map zeroAccel (map zeroAccel charges) = map zeroAccel charges"
    by simp
  ultimately show ?thesis
    by (simp add: computeAccelerations_def Let_def pairLoop_frame del: map_map)
qed

lemma computeAccelerations_length [simp]:
  "length (computeAccelerations charges magnets opts) = length charges"
  using computeAccelerations_frame [of charges magnets opts] by (metis length_map)

lemma computeAccelerations_nth:
  assumes "i < length charges"
  shows "zeroAccel (computeAccelerations charges magnets opts ! i) = zeroAccel (charges ! i)"
  using computeAccelerations_frame [of charges magnets opts] assms
  by (metis computeAccelerations_length nth_map)

lemma zeroAccel_eq_fields:
  assumes "zeroAccel c1 = zeroAccel c"
  shows "x c1 = x c" "y c1 = y c" "vx c1 = vx c" "vy c1 = vy c" "q c1 = q c" "m c1 = m c"
    "pinned c1 = pinned c"
proof -
  have "x (zeroAccel c1) = x (zeroAccel c)" "y (zeroAccel c1) = y (zeroAccel c)"
    "vx (zeroAccel c1) = vx (zeroAccel c)" "vy (zeroAccel c1) = vy (zeroAccel c)"
    "q (zeroAccel c1) = q (zeroAccel c)" "m (zeroAccel c1) = m (zeroAccel c)"
    "pinned (zeroAccel c1) = pinned (zeroAccel c)"
    using assms by simp_all
  then show "x c1 = x c" "y c1 = y c" "vx c1 = vx c" "vy c1 = vy c" "q c1 = q c" "m c1 = m c"
    "pinned c1 = pinned c"
    by (simp_all add: zeroAccel_def)
qed

lemma pinnedKept_refl: "pinnedKept cs cs"
  by (simp add: pinnedKept_def)

lemma pinnedKept_trans: "pinnedKept cs cs1 \<Longrightarrow> pinnedKept cs1 cs2 \<Longrightarrow> pinnedKept cs cs2"
proof -
  assume a: "pinnedKept cs cs1" and b: "pinnedKept cs1 cs2"
  have "zeroAccel (cs2 ! i) = zeroAccel (cs ! i)" if "i < length cs" "pinned (cs ! i)" for i
  proof -
    from a that have e1: "zeroAccel (cs1 ! i) = zeroAccel (cs ! i)"
      by (simp add: pinnedKept_def)
    then have "pinned (cs1 ! i)" using that(2) zeroAccel_eq_fields(7) by blast
    with b a that(1) have "zeroAccel (cs2 ! i) = zeroAccel (cs1 ! i)"
      by (simp add: pinnedKept_def)
    with e1 show ?thesis by simp
  qed
  with a b show ?thesis by (simp add: pinnedKept_def)
qed

lemma pinnedKept_computeAccelerations:
  "pinnedKept cs (computeAccelerations cs magnets opts)"
  by (simp add: pinnedKept_def computeAccelerations_nth)

lemma pinnedKept_integrate: "pinnedKept cs (map (integrate damp dt) cs)"
  by (simp add: pinnedKept_def integrate_def)

lemma pinnedKept_moveTo: "pinnedKept cs (moveTo h state0 kq cs)"
  by (simp add: pinnedKept_def moveTo_def)

lemma pinnedKept_combine: "pinnedKept cs (combine damp dt state0 k1 k2 k3 k4 cs)"
  by (simp add: pinnedKept_def combine_def)

lemma pinnedKept_stepPhysics: "pinnedKept cs (stepPhysics cs magnets dt opts)"
  unfolding stepPhysics_def Let_def
  by (rule pinnedKept_trans [OF pinnedKept_computeAccelerations pinnedKept_integrate])

lemma pinnedKept_stepPhysicsRK4: "pinnedKept cs (stepPhysicsRK4 cs magnets dt opts)"
proof -
  have stage: "pinnedKept cs (computeAccelerations (moveTo h s0 kq c) magnets opts)"
    if "pinnedKept cs c" for h s0 kq c
    by (rule pinnedKept_trans [OF that
          pinnedKept_trans [OF pinnedKept_moveTo pinnedKept_computeAccelerations]])
  show ?thesis
    unfolding stepPhysicsRK4_def Let_def
    by (rule pinnedKept_trans [OF stage [OF stage [OF stage [OF pinnedKept_computeAccelerations]]]
          pinnedKept_combine])
qed

lemma pinnedKept_stepper: "pinnedKept cs (stepper useRK4 cs magnets dt opts)"
  by (simp add: stepper_def pinnedKept_stepPhysics pinnedKept_stepPhysicsRK4)

lemma pinnedKept_runSteps: "pinnedKept cs (runSteps calls cs)"
proof (induction calls arbitrary: cs)
  case Nil
  show ?case by (simp add: pinnedKept_refl)
next
  case (Cons call calls)
  obtain useRK4 magnets dt opts where call: "call = (useRK4, magnets, dt, opts)"
    by (cases call) auto
  show ?case
    unfolding call runSteps.simps
    by (rule pinnedKept_trans [OF pinnedKept_stepper Cons.IH])
qed

lemma pinnedKept_samePosVel:
  assumes "pinnedKept cs cs1" "i < length cs" "pinned (cs ! i)"
  shows "pinned (cs1 ! i) \<and> samePosVel (cs ! i) (cs1 ! i)"
proof -
  from assms have "zeroAccel (cs1 ! i) = zeroAccel (cs ! i)"
    by (simp add: pinnedKept_def)
  from zeroAccel_eq_fields [OF this] assms(3) show ?thesis
    by (simp add: samePosVel_def)
qed

subsection \<open>Binary64 rounding\<close>

lemma pow2_powr: "pow2 i = 2 powr (of_int i)"
proof (cases "0 \<le> i")
  case True
  then show ?thesis by (simp add: pow2_def powr_real_of_int)
next
  case False
  then show ?thesis by (simp add: pow2_def powr_real_of_int field_simps)
qed

lemma pow2_pos [simp]: "0 < pow2 i"
  by (simp add: pow2_powr)

lemma pow2_add: "pow2 (i + j) = pow2 i * pow2 j"
  by (simp add: pow2_powr powr_add)

lemma pow2_mono: "i \<le> j \<Longrightarrow> pow2 i \<le> pow2 j"
  by (simp add: pow2_powr)

lemma expo_eq:
  assumes "pow2 e \<le> \<bar>r\<bar>" "\<bar>r\<bar> < pow2 (e + 1)" "- 1022 \<le> e"
  shows "expo r = e"
proof -
  have pos: "0 < \<bar>r\<bar>" using assms(1) pow2_pos [of e] by linarith
  have "\<lfloor>log 2 \<bar>r\<bar>\<rfloor> = e"
    using assms(1,2) pos by (simp add: floor_log_eq_powr_iff pow2_powr)
  with assms(3) show ?thesis by (simp add: expo_def)
qed

lemma rhe_near:
  assumes "\<bar>r - of_int n\<bar> < 1 / 2"
  shows "rhe r = n"
proof (cases "of_int n \<le> r")
  case True
  with assms have "\<lfloor>r\<rfloor> = n" by (intro floor_unique) linarith+
  with assms True show ?thesis by (simp add: rhe_def Let_def)
next
  case False
  have lo: "of_int (n - 1) \<le> r" and hi: "r < of_int (n - 1) + 1"
    using assms False by (simp_all add: abs_if split: if_splits)
  have f: "\<lfloor>r\<rfloor> = n - 1" by (rule floor_unique [OF lo hi])
  from assms False have "1 / 2 < r - of_int (n - 1)"
    by (simp add: abs_if split: if_splits)
  with f show ?thesis by (simp add: rhe_def Let_def)
qed

lemma rhe_tie:
  assumes "\<bar>r - of_int n\<bar> = 1 / 2" "even n"
  shows "rhe r = n"
proof (cases "of_int n \<le> r")
  case True
  with assms have r: "r = of_int n + 1 / 2" by linarith
  then have "\<lfloor>r\<rfloor> = n" by (intro floor_unique) linarith+
  with r assms(2) show ?thesis by (simp add: rhe_def Let_def)
next
  case False
  with assms have r: "r = of_int n - 1 / 2" by linarith
  have lo: "of_int (n - 1) \<le> r" and hi: "r < of_int (n - 1) + 1"
    using r by simp_all
  have f: "\<lfloor>r\<rfloor> = n - 1" by (rule floor_unique [OF lo hi])
  with r assms(2) show ?thesis by (simp add: rhe_def Let_def)
qed

lemma rnd_eval:
  assumes "pow2 e \<le> \<bar>r\<bar>" "\<bar>r\<bar> < pow2 (e + 1)" "- 1022 \<le> e"
    and "\<bar>r / pow2 (e - 52) - of_int n\<bar> < 1 / 2 \<or>
         (\<bar>r / pow2 (e - 52) - of_int n\<bar> = 1 / 2 \<and> even n)"
    and "\<bar>of_int n * pow2 (e - 52)\<bar> < pow2 1024"
  shows "rnd r = Num (of_int n * pow2 (e - 52))"
proof -
  have nz: "r \<noteq> 0" using assms(1) by (metis abs_zero not_le pow2_pos)
  have e: "expo r = e" by (rule expo_eq [OF assms(1,2,3)])
  have n: "rhe (r / pow2 (e - 52)) = n"
    using assms(4) rhe_near rhe_tie by blast
  show ?thesis
    using nz assms(5) by (simp add: rnd_def Let_def e n)
qed

lemma rnd_zero [simp]: "rnd 0 = Num 0"
  by (simp add: rnd_def)

lemmas f64_ops = plus_f64_def minus_f64_def uminus_f64_def times_f64_def divide_f64_def less_f64_def

text \<open>
  The roundings met when the kernel is run on the sample data: each exact result
  with its exponent and its 53-bit integer significand.
\<close>

lemma f64_sqrt_1: "sqrt (5025630539618892359103054235969 / 83076749736557242056487941267521536) = 2241791814513313 / 288230376151711744"
  using real_sqrt_abs [of "2241791814513313 / 288230376151711744"] by (simp add: power2_eq_square)

lemma f64_sqrt_2: "sqrt (7301667457314598110029278756209 / 81129638414606681695789005144064) = 2702159776422297 / 9007199254740992"
  using real_sqrt_abs [of "2702159776422297 / 9007199254740992"] by (simp add: power2_eq_square)

lemma f64_sqrt_3: "sqrt (9) = 3"
  using real_sqrt_abs [of "3"] by (simp add: power2_eq_square)

lemma f64_sqrt_4: "sqrt (25) = 5"
  using real_sqrt_abs [of "5"] by (simp add: power2_eq_square)

lemma f64_rnd_1: "rnd (- 3) = Num (- 3)"
  using rnd_eval [of "1" "- 3" "-6755399441055744"] by (simp add: pow2_def)

lemma f64_rnd_2: "rnd (- (16212958658533785 / 9007199254740992)) = Num (- (2026619832316723 / 1125899906842624))"
  using rnd_eval [of "0" "- (16212958658533785 / 9007199254740992)" "-8106479329266892"] by (simp add: pow2_def)

lemma f64_rnd_3: "rnd (- (2026619832316723 / 1125899906842624)) = Num (- (2026619832316723 / 1125899906842624))"
  using rnd_eval [of "0" "- (2026619832316723 / 1125899906842624)" "-8106479329266892"] by (simp add: pow2_def)

lemma f64_rnd_4: "rnd (- (10808639105689191 / 9007199254740992)) = Num (- (1351079888211149 / 1125899906842624))"
  using rnd_eval [of "0" "- (10808639105689191 / 9007199254740992)" "-5404319552844596"] by (simp add: pow2_def)

lemma f64_rnd_5: "rnd (- (4 / 5)) = Num (- (3602879701896397 / 4503599627370496))"
  using rnd_eval [of "-1" "- (4 / 5)" "-7205759403792794"] by (simp add: pow2_def)

lemma f64_rnd_6: "rnd (- (3650833728657300406094527589253 / 10141204801825835211973625643008)) = Num (- (3242591731706757 / 9007199254740992))"
  using rnd_eval [of "-2" "- (3650833728657300406094527589253 / 10141204801825835211973625643008)" "-6485183463413514"] by (simp add: pow2_def)

lemma f64_rnd_7: "rnd (- (3602879701896397 / 36028797018963968)) = Num (- (3602879701896397 / 36028797018963968))"
  using rnd_eval [of "-4" "- (3602879701896397 / 36028797018963968)" "-7205759403792794"] by (simp add: pow2_def)

lemma f64_rnd_8: "rnd (- (5604479536283283 / 72057594037927936)) = Num (- (5604479536283283 / 72057594037927936))"
  using rnd_eval [of "-4" "- (5604479536283283 / 72057594037927936)" "-5604479536283283"] by (simp add: pow2_def)

lemma f64_rnd_9: "rnd (- (20192265560968771949224109031351 / 2596148429267413814265248164610048)) = Num (- (8967167258053253 / 1152921504606846976))"
  using rnd_eval [of "-8" "- (20192265560968771949224109031351 / 2596148429267413814265248164610048)" "-8967167258053253"] by (simp add: pow2_def)

lemma f64_rnd_10: "rnd (- (8967167258053253 / 1152921504606846976)) = Num (- (8967167258053253 / 1152921504606846976))"
  using rnd_eval [of "-8" "- (8967167258053253 / 1152921504606846976)" "-8967167258053253"] by (simp add: pow2_def)

lemma f64_rnd_11: "rnd (- (17934334516106505 / 2305843009213693952)) = Num (- (2241791814513313 / 288230376151711744))"
  using rnd_eval [of "-8" "- (17934334516106505 / 2305843009213693952)" "-8967167258053252"] by (simp add: pow2_def)

lemma f64_rnd_12: "rnd (- (2241791814513313 / 288230376151711744)) = Num (- (2241791814513313 / 288230376151711744))"
  using rnd_eval [of "-8" "- (2241791814513313 / 288230376151711744)" "-8967167258053252"] by (simp add: pow2_def)

lemma f64_rnd_13: "rnd (- (7378697629483821 / 2305843009213693952)) = Num (- (7378697629483821 / 2305843009213693952))"
  using rnd_eval [of "-9" "- (7378697629483821 / 2305843009213693952)" "-7378697629483821"] by (simp add: pow2_def)

lemma f64_rnd_14: "rnd (- (4153837486827862419877810830259 / 5192296858534827628530496329220096)) = Num (- (7378697629483821 / 9223372036854775808))"
  using rnd_eval [of "-11" "- (4153837486827862419877810830259 / 5192296858534827628530496329220096)" "-7378697629483821"] by (simp add: pow2_def)

lemma f64_rnd_15: "rnd (1844674407370955 / 2305843009213693952) = Num (1844674407370955 / 2305843009213693952)"
  using rnd_eval [of "-11" "1844674407370955 / 2305843009213693952" "7378697629483820"] by (simp add: pow2_def)

lemma f64_rnd_16: "rnd (4153837486827862419877810830259 / 5192296858534827628530496329220096) = Num (7378697629483821 / 9223372036854775808)"
  using rnd_eval [of "-11" "4153837486827862419877810830259 / 5192296858534827628530496329220096" "7378697629483821"] by (simp add: pow2_def)

lemma f64_rnd_17: "rnd (22136092888451463 / 9223372036854775808) = Num (2767011611056433 / 1152921504606846976)"
  using rnd_eval [of "-9" "22136092888451463 / 9223372036854775808" "5534023222112866"] by (simp add: pow2_def)

lemma f64_rnd_18: "rnd (2767011611056433 / 1152921504606846976) = Num (2767011611056433 / 1152921504606846976)"
  using rnd_eval [of "-9" "2767011611056433 / 1152921504606846976" "5534023222112866"] by (simp add: pow2_def)

lemma f64_rnd_19: "rnd (3365377593494795151398699191695 / 1298074214633706907132624082305024) = Num (5978111505368835 / 2305843009213693952)"
  using rnd_eval [of "-9" "3365377593494795151398699191695 / 1298074214633706907132624082305024" "5978111505368835"] by (simp add: pow2_def)

lemma f64_rnd_20: "rnd (2403841138210568346541896448713 / 649037107316853453566312041152512) = Num (2135039823346013 / 576460752303423488)"
  using rnd_eval [of "-9" "2403841138210568346541896448713 / 649037107316853453566312041152512" "8540159293384052"] by (simp add: pow2_def)

lemma f64_rnd_21: "rnd (1152921504606847 / 288230376151711744) = Num (1152921504606847 / 288230376151711744)"
  using rnd_eval [of "-8" "1152921504606847 / 288230376151711744" "4611686018427388"] by (simp add: pow2_def)

lemma f64_rnd_22: "rnd (36893488147419105 / 9223372036854775808) = Num (1152921504606847 / 288230376151711744)"
  using rnd_eval [of "-8" "36893488147419105 / 9223372036854775808" "4611686018427388"] by (simp add: pow2_def)

lemma f64_rnd_23: "rnd (2241791814513313 / 288230376151711744) = Num (2241791814513313 / 288230376151711744)"
  using rnd_eval [of "-8" "2241791814513313 / 288230376151711744" "8967167258053252"] by (simp add: pow2_def)

lemma f64_rnd_24: "rnd (4483583629026627 / 576460752303423488) = Num (4483583629026627 / 576460752303423488)"
  using rnd_eval [of "-8" "4483583629026627 / 576460752303423488" "8967167258053254"] by (simp add: pow2_def)

lemma f64_rnd_25: "rnd (20192265560968773600543972400533 / 2596148429267413814265248164610048) = Num (4483583629026627 / 576460752303423488)"
  using rnd_eval [of "-8" "20192265560968773600543972400533 / 2596148429267413814265248164610048" "8967167258053254"] by (simp add: pow2_def)

lemma f64_rnd_26: "rnd (1 / 125) = Num (1152921504606847 / 144115188075855872)"
  using rnd_eval [of "-7" "1 / 125" "4611686018427388"] by (simp add: pow2_def)

lemma f64_rnd_27: "rnd (6405119470038039 / 576460752303423488) = Num (6405119470038039 / 576460752303423488)"
  using rnd_eval [of "-7" "6405119470038039 / 576460752303423488" "6405119470038039"] by (simp add: pow2_def)

lemma f64_rnd_28: "rnd (2103360995934247053024180094263 / 81129638414606681695789005144064) = Num (1868159845427761 / 72057594037927936)"
  using rnd_eval [of "-6" "2103360995934247053024180094263 / 81129638414606681695789005144064" "7472639381711044"] by (simp add: pow2_def)

lemma f64_rnd_29: "rnd (1 / 27) = Num (667199944795629 / 18014398509481984)"
  using rnd_eval [of "-5" "1 / 27" "5337599558365032"] by (simp add: pow2_def)

lemma f64_rnd_30: "rnd (3602879701896397 / 72057594037927936) = Num (3602879701896397 / 72057594037927936)"
  using rnd_eval [of "-5" "3602879701896397 / 72057594037927936" "7205759403792794"] by (simp add: pow2_def)

lemma f64_rnd_31: "rnd (11358149378044935347338468172759 / 162259276829213363391578010288128) = Num (5044031582654955 / 72057594037927936)"
  using rnd_eval [of "-4" "11358149378044935347338468172759 / 162259276829213363391578010288128" "5044031582654955"] by (simp add: pow2_def)

lemma f64_rnd_32: "rnd (7205759403792793 / 72057594037927936) = Num (7205759403792793 / 72057594037927936)"
  using rnd_eval [of "-4" "7205759403792793 / 72057594037927936" "7205759403792793"] by (simp add: pow2_def)

lemma f64_rnd_33: "rnd (5404319552844595 / 54043195528445952) = Num (7205759403792793 / 72057594037927936)"
  using rnd_eval [of "-4" "5404319552844595 / 54043195528445952" "7205759403792793"] by (simp add: pow2_def)

lemma f64_rnd_34: "rnd (3602879701896397 / 36028797018963968) = Num (3602879701896397 / 36028797018963968)"
  using rnd_eval [of "-4" "3602879701896397 / 36028797018963968" "7205759403792794"] by (simp add: pow2_def)

lemma f64_rnd_35: "rnd (5404319552844595 / 36028797018963968) = Num (5404319552844595 / 36028797018963968)"
  using rnd_eval [of "-3" "5404319552844595 / 36028797018963968" "5404319552844595"] by (simp add: pow2_def)

lemma f64_rnd_36: "rnd (3602879701896397 / 18014398509481984) = Num (3602879701896397 / 18014398509481984)"
  using rnd_eval [of "-3" "3602879701896397 / 18014398509481984" "7205759403792794"] by (simp add: pow2_def)

lemma f64_rnd_37: "rnd (5476250592985949258061903172731 / 20282409603651670423947251286016) = Num (2431943798780067 / 9007199254740992)"
  using rnd_eval [of "-2" "5476250592985949258061903172731 / 20282409603651670423947251286016" "4863887597560134"] by (simp add: pow2_def)

lemma f64_rnd_38: "rnd (2702159776422297 / 9007199254740992) = Num (2702159776422297 / 9007199254740992)"
  using rnd_eval [of "-2" "2702159776422297 / 9007199254740992" "5404319552844594"] by (simp add: pow2_def)

lemma f64_rnd_39: "rnd (10808639105689189 / 36028797018963968) = Num (2702159776422297 / 9007199254740992)"
  using rnd_eval [of "-2" "10808639105689189 / 36028797018963968" "5404319552844594"] by (simp add: pow2_def)

lemma f64_rnd_40: "rnd (10808639105689191 / 36028797018963968) = Num (1351079888211149 / 4503599627370496)"
  using rnd_eval [of "-2" "10808639105689191 / 36028797018963968" "5404319552844596"] by (simp add: pow2_def)

lemma f64_rnd_41: "rnd (2026619832316723 / 4503599627370496) = Num (2026619832316723 / 4503599627370496)"
  using rnd_eval [of "-2" "2026619832316723 / 4503599627370496" "8106479329266892"] by (simp add: pow2_def)

lemma f64_rnd_42: "rnd (16212958658533785 / 36028797018963968) = Num (2026619832316723 / 4503599627370496)"
  using rnd_eval [of "-2" "16212958658533785 / 36028797018963968" "8106479329266892"] by (simp add: pow2_def)

lemma f64_rnd_43: "rnd (1 / 2) = Num (1 / 2)"
  using rnd_eval [of "-1" "1 / 2" "4503599627370496"] by (simp add: pow2_def)

lemma f64_rnd_44: "rnd (9007199254740993 / 18014398509481984) = Num (1 / 2)"
  using rnd_eval [of "-1" "9007199254740993 / 18014398509481984" "4503599627370496"] by (simp add: pow2_def)

lemma f64_rnd_45: "rnd (3 / 5) = Num (5404319552844595 / 9007199254740992)"
  using rnd_eval [of "-1" "3 / 5" "5404319552844595"] by (simp add: pow2_def)

lemma f64_rnd_46: "rnd (21617278211378381 / 36028797018963968) = Num (5404319552844595 / 9007199254740992)"
  using rnd_eval [of "-1" "21617278211378381 / 36028797018963968" "5404319552844595"] by (simp add: pow2_def)

lemma f64_rnd_47: "rnd (3152519739159347 / 4503599627370496) = Num (3152519739159347 / 4503599627370496)"
  using rnd_eval [of "-1" "3152519739159347 / 4503599627370496" "6305039478318694"] by (simp add: pow2_def)

lemma f64_rnd_48: "rnd (16212958658533785 / 18014398509481984) = Num (2026619832316723 / 2251799813685248)"
  using rnd_eval [of "-1" "16212958658533785 / 18014398509481984" "8106479329266892"] by (simp add: pow2_def)

lemma f64_rnd_49: "rnd (1) = Num (1)"
  using rnd_eval [of "0" "1" "4503599627370496"] by (simp add: pow2_def)

lemma f64_rnd_50: "rnd (12159718993900335 / 9007199254740992) = Num (759982437118771 / 562949953421312)"
  using rnd_eval [of "0" "12159718993900335 / 9007199254740992" "6079859496950168"] by (simp add: pow2_def)

lemma f64_rnd_51: "rnd (759982437118771 / 562949953421312) = Num (759982437118771 / 562949953421312)"
  using rnd_eval [of "0" "759982437118771 / 562949953421312" "6079859496950168"] by (simp add: pow2_def)

lemma f64_rnd_52: "rnd (3) = Num (3)"
  using rnd_eval [of "1" "3" "6755399441055744"] by (simp add: pow2_def)

lemma f64_rnd_53: "rnd (866932920269648545 / 288230376151711744) = Num (6772913439606629 / 2251799813685248)"
  using rnd_eval [of "1" "866932920269648545 / 288230376151711744" "6772913439606629"] by (simp add: pow2_def)

lemma f64_rnd_54: "rnd (1733865840539297091 / 576460752303423488) = Num (6772913439606629 / 2251799813685248)"
  using rnd_eval [of "1" "1733865840539297091 / 576460752303423488" "6772913439606629"] by (simp add: pow2_def)

lemma f64_rnd_55: "rnd (4) = Num (4)"
  using rnd_eval [of "2" "4" "4503599627370496"] by (simp add: pow2_def)

lemma f64_rnd_56: "rnd (5) = Num (5)"
  using rnd_eval [of "2" "5" "5629499534213120"] by (simp add: pow2_def)

lemma f64_rnd_57: "rnd (9) = Num (9)"
  using rnd_eval [of "3" "9" "5066549580791808"] by (simp add: pow2_def)

lemma f64_rnd_58: "rnd (16) = Num (16)"
  using rnd_eval [of "4" "16" "4503599627370496"] by (simp add: pow2_def)

lemma f64_rnd_59: "rnd (25) = Num (25)"
  using rnd_eval [of "4" "25" "7036874417766400"] by (simp add: pow2_def)

lemma f64_rnd_60: "rnd (27) = Num (27)"
  using rnd_eval [of "4" "27" "7599824371187712"] by (simp add: pow2_def)

lemma f64_rnd_61: "rnd (125) = Num (125)"
  using rnd_eval [of "6" "125" "8796093022208000"] by (simp add: pow2_def)

lemmas f64_values =
  f64_sqrt_1 f64_sqrt_2 f64_sqrt_3 f64_sqrt_4 f64_rnd_1 f64_rnd_2 f64_rnd_3 f64_rnd_4 f64_rnd_5
  f64_rnd_6 f64_rnd_7 f64_rnd_8 f64_rnd_9 f64_rnd_10 f64_rnd_11 f64_rnd_12 f64_rnd_13
  f64_rnd_14 f64_rnd_15 f64_rnd_16 f64_rnd_17 f64_rnd_18 f64_rnd_19 f64_rnd_20 f64_rnd_21
  f64_rnd_22 f64_rnd_23 f64_rnd_24 f64_rnd_25 f64_rnd_26 f64_rnd_27 f64_rnd_28 f64_rnd_29
  f64_rnd_30 f64_rnd_31 f64_rnd_32 f64_rnd_33 f64_rnd_34 f64_rnd_35 f64_rnd_36 f64_rnd_37
  f64_rnd_38 f64_rnd_39 f64_rnd_40 f64_rnd_41 f64_rnd_42 f64_rnd_43 f64_rnd_44 f64_rnd_45
  f64_rnd_46 f64_rnd_47 f64_rnd_48 f64_rnd_49 f64_rnd_50 f64_rnd_51 f64_rnd_52 f64_rnd_53
  f64_rnd_54 f64_rnd_55 f64_rnd_56 f64_rnd_57 f64_rnd_58 f64_rnd_59 f64_rnd_60 f64_rnd_61

lemma rhe_bound: "\<bar>of_int (rhe r) - r\<bar> \<le> 1 / 2"
  by (auto simp add: rhe_def Let_def abs_if) linarith+

lemma double_bound:
  assumes "rnd d = Num d"
  shows "\<bar>d\<bar> < pow2 1024"
proof (cases "d = 0")
  case True
  then show ?thesis by simp
next
  case False
  with assms show ?thesis
    by (auto simp add: rnd_def Let_def split: if_splits)
qed

lemma expo_upper:
  assumes "r \<noteq> 0"
  shows "\<bar>r\<bar> < pow2 (expo r + 1)"
proof -
  have pos: "0 < \<bar>r\<bar>" using assms by simp
  have "log 2 \<bar>r\<bar> < of_int (\<lfloor>log 2 \<bar>r\<bar>\<rfloor> + 1)" by linarith
  also have "\<dots> \<le> of_int (expo r + 1)" by (simp add: expo_def)
  finally have "log 2 \<bar>r\<bar> < of_int (expo r + 1)" .
  then have "\<bar>r\<bar> < 2 powr of_int (expo r + 1)"
    using pos by (simp add: log_less_iff)
  then show ?thesis by (simp add: pow2_powr)
qed

lemma expo_le:
  assumes "r \<noteq> 0" "\<bar>r\<bar> < pow2 (b + 1)" "- 1022 \<le> b"
  shows "expo r \<le> b"
proof -
  have pos: "0 < \<bar>r\<bar>" using assms by simp
  from assms(2) have "log 2 \<bar>r\<bar> < of_int (b + 1)"
    using pos by (simp add: log_less_iff pow2_powr)
  then have "\<lfloor>log 2 \<bar>r\<bar>\<rfloor> < b + 1" by (simp only: floor_less_iff)
  with assms(3) show ?thesis by (simp add: expo_def)
qed

lemma rnd_finite:
  assumes "\<bar>r\<bar> < pow2 1023"
  shows "\<exists>h. rnd r = Num h"
proof (cases "r = 0")
  case True
  then show ?thesis by simp
next
  case False
  define e where "e = expo r"
  define u where "u = pow2 (e - 52)"
  define n where "n = rhe (r / u)"
  have e: "e \<le> 1022"
    unfolding e_def using expo_le [OF False, of 1022] assms by simp
  have upos: "0 < u" by (simp add: u_def)
  have "\<bar>r\<bar> < pow2 (e + 1)" unfolding e_def by (rule expo_upper [OF False])
  also have "pow2 (e + 1) = pow2 53 * u"
    unfolding u_def using pow2_add [of 53 "e - 52"] by (simp add: add.commute)
  finally have q: "\<bar>r / u\<bar> < pow2 53"
    using upos by (simp add: field_simps)
  have "\<bar>of_int n\<bar> \<le> \<bar>r / u\<bar> + 1 / (2::real)"
    using rhe_bound [of "r / u"] unfolding n_def by linarith
  with q have "\<bar>of_int n :: real\<bar> < pow2 53 + 1" by linarith
  then have "\<bar>n\<bar> < 2 ^ 53 + 1"
    by (simp add: pow2_def)
  then have "\<bar>n\<bar> \<le> 2 ^ 53" by simp
  then have "\<bar>of_int n :: real\<bar> \<le> pow2 53"
    by (simp add: pow2_def)
  then have "\<bar>of_int n * u\<bar> \<le> pow2 53 * u"
    using upos by (simp add: abs_mult)
  also have "\<dots> = pow2 (e + 1)"
    unfolding u_def using pow2_add [of 53 "e - 52"] by (simp add: add.commute)
  also have "\<dots> \<le> pow2 1023" using e by (intro pow2_mono) simp
  also have "\<dots> < pow2 1024" by (simp add: pow2_powr)
  finally have "\<not> pow2 1024 \<le> \<bar>of_int n * u\<bar>" by simp
  then show ?thesis
    using False by (simp add: rnd_def Let_def e_def [symmetric] u_def [symmetric] n_def [symmetric])
qed

lemma half_finite:
  assumes "isDouble (Num d)"
  shows "\<exists>h. Num (1 / 2) * Num d = Num h"
proof -
  from assms have "\<bar>d\<bar> < pow2 1024" by (simp add: double_bound)
  also have "pow2 1024 = 2 * pow2 1023"
    using pow2_add [of 1 1023] by (simp add: pow2_def)
  finally have "\<bar>d / 2\<bar> < pow2 1023" by simp
  from rnd_finite [OF this] show ?thesis by (simp add: f64_ops)
qed

lemma hypot64_zero [simp]: "hypot64 (Num 0) (Num 0) = Num 0"
  by simp

lemma lorentzStep64_Nil [simp]: "lorentzStep64 [] opts c = c"
  by (simp add: lorentzStep64_def totalMagneticFieldAt64_def less_f64_def)

lemma computeAccelerations64_single:
  "computeAccelerations64 [c] [] opts = [c\<lparr>ax64 := Num 0, ay64 := Num 0\<rparr>]"
  by (simp add: computeAccelerations64_def)

lemmas f64_samples = drifting64_def undamped64_def pairLeft64_def pairRight64_def unclamped64_def
  dipolePlus64_def dipoleMinus64_def unit64_def unsoftened64_def moving64_def bar64_def hard64_def

subsection \<open>The Euler scenario\<close>

text \<open>
  C1. A free charge at \<open>(0, 0)\<close> and a pinned charge at \<open>(10, 0)\<close>, both with \<open>q = 1\<close>
  and \<open>m = 1\<close>, no magnets, \<open>k = 1\<close>, \<open>softening = 0\<close>, \<open>maxAccel = Infinity\<close>,
  \<open>damping = 1\<close>, \<open>dt = 1\<close>: after one call of \<^verbatim>\<open>stepPhysics\<close> the free charge has
  acceleration \<open>(-1/100, 0)\<close>, velocity \<open>(-1/100, 0)\<close> and position \<open>(-1/100, 0)\<close>.
  The scenario leaves the accelerations of both charges and the velocity of the
  pinned charge unset; the result is the same for every value of them.
\<close>

theorem euler_scenario:
  "stepPhysics
     [\<lparr>x = 0, y = 0, vx = 0, vy = 0, ax = a0, ay = a1, q = 1, m = 1, pinned = False\<rparr>,
      \<lparr>x = 10, y = 0, vx = u, vy = v, ax = b0, ay = b1, q = 1, m = 1, pinned = True\<rparr>]
     [] 1 \<lparr>k = Some 1, softening = Some 0, damping = Some 1, maxAccel = Some Infinity\<rparr> ! 0
   = \<lparr>x = - (1 / 100), y = 0, vx = - (1 / 100), vy = 0, ax = - (1 / 100), ay = 0,
      q = 1, m = 1, pinned = False\<rparr>"
  by (simp add: stepPhysics_def computeAccelerations_def pairLoop_def pairStep_def
        pairIncs_def pairForce_def integrate_def zeroAccel_def nullish_def upt_two sqrt_100 Let_def)

subsection \<open>Pinned charges\<close>

text \<open>
  C2. A pinned charge keeps its position \<open>(x, y)\<close> and its velocity \<open>(vx, vy)\<close>
  through a call of \<^verbatim>\<open>stepPhysics\<close>, through a call of \<^verbatim>\<open>stepPhysicsRK4\<close> (whose
  four stage evaluations therefore leave it where it was), and through every
  finite sequence of such calls, whatever the charges, magnets, time steps and
  options; it also stays pinned and the array keeps its length.
\<close>

theorem pinned_charge_untouched:
  assumes "i < length charges" and "pinned (charges ! i)"
  shows "samePosVel (charges ! i) (stepPhysics charges magnets dt opts ! i) \<and>
         samePosVel (charges ! i) (stepPhysicsRK4 charges magnets dt opts ! i) \<and>
         samePosVel (charges ! i) (runSteps calls charges ! i) \<and>
         pinned (runSteps calls charges ! i) \<and>
         length (runSteps calls charges) = length charges"
  using pinnedKept_samePosVel [OF pinnedKept_stepPhysics assms]
    pinnedKept_samePosVel [OF pinnedKept_stepPhysicsRK4 assms]
    pinnedKept_samePosVel [OF pinnedKept_runSteps assms]
    pinnedKept_runSteps [of charges calls]
  by (simp add: pinnedKept_def)

theorem pinned_charge_untouched_witness:
  "1 < length [demoFree, demoPinned] \<and> pinned ([demoFree, demoPinned] ! 1) \<and>
   samePosVel demoPinned (stepPhysics [demoFree, demoPinned] [demoMagnet] 1 demoOptions ! 1) \<and>
   samePosVel demoPinned (stepPhysicsRK4 [demoFree, demoPinned] [demoMagnet] 1 demoOptions ! 1) \<and>
   samePosVel demoPinned
     (runSteps [(False, [demoMagnet], 1, demoOptions), (True, [], 1 / 2, demoOptions)]
        [demoFree, demoPinned] ! 1)"
proof -
  have h1: "1 < length [demoFree, demoPinned]" by simp
  have h2: "pinned ([demoFree, demoPinned] ! 1)" by (simp add: demoPinned_def)
  show ?thesis
    using h1 h2 pinned_charge_untouched [OF h1 h2, of "[demoMagnet]" 1 demoOptions
        "[(False, [demoMagnet], 1, demoOptions), (True, [], 1 / 2, demoOptions)]"]
    by simp
qed

subsection \<open>The electric field\<close>




subsection \<open>The pair increments before the clamp\<close>




subsection \<open>A single free charge\<close>

text \<open>
  In exact arithmetic both integrators move a single free charge along a straight
  line: with no magnets and \<open>damping = 1\<close> the velocity stays and the position
  advances by \<open>(vx \<cdot> dt, vy \<cdot> dt)\<close>.
\<close>

lemma free_charge_straight_line_exact:
  "\<not> pinned c \<Longrightarrow> nullish (damping opts) 1 = 1 \<Longrightarrow>
   stepPhysics [c] [] dt opts =
     [c\<lparr>ax := 0, ay := 0, x := x c + vx c * dt, y := y c + vy c * dt\<rparr>] \<and>
   stepPhysicsRK4 [c] [] dt opts =
     [c\<lparr>ax := 0, ay := 0, x := x c + vx c * dt, y := y c + vy c * dt\<rparr>]"
  by (simp add: stepPhysics_def stepPhysicsRK4_def computeAccelerations_single integrate_def
        moveTo_def combine_def snapshot_def stageDeriv_def Let_def)

text \<open>
  C7, as stated: both integrators advance the position of a single free charge by
  exactly \<open>(vx \<cdot> dt, vy \<cdot> dt)\<close>. It fails for \<^verbatim>\<open>stepPhysicsRK4\<close>: the source computes
  \<^verbatim>\<open>s.x + dt * ((k1.x + 2*k2.x + 2*k3.x + k4.x) / 6)\<close>, and for a charge at the origin
  with velocity \<^verbatim>\<open>(0.1, 0)\<close> and \<open>dt = 1\<close> the sum \<open>0.1 + 0.2 + 0.2 + 0.1\<close> rounds to
  \<^verbatim>\<open>0.6\<close>, whose sixth rounds to \<^verbatim>\<open>0.09999999999999999\<close>
  (\<open>7205759403792793 / 2\<^sup>5\<^sup>6\<close>): the new \<open>x\<close>, where \<^verbatim>\<open>x + vx * dt\<close> is \<^verbatim>\<open>0.1\<close>.
\<close>

theorem free_charge_rk4_counterexample:
  "stepPhysicsRK4_64 [drifting64] [] (Num 1) undamped64 =
     [drifting64\<lparr>x64 := Num (7205759403792793 / 72057594037927936)\<rparr>] \<and>
   x64 drifting64 + vx64 drifting64 * Num 1 = Num (3602879701896397 / 36028797018963968) \<and>
   Num (7205759403792793 / 72057594037927936) \<noteq> Num (3602879701896397 / 36028797018963968)"
  by (simp add: stepPhysicsRK4_64_def computeAccelerations64_def lorentzStep64_def
        totalMagneticFieldAt64_def moveTo64_def combine64_def snapshot64_def stageDeriv64_def
        nullish_def Let_def f64_ops f64_values f64_samples)

text \<open>
  C7, amended: for a charge set containing a single non-pinned charge with a finite
  velocity, an empty magnet set, \<open>damping = 1\<close> (given, or absent and defaulted) and
  a finite \<open>dt\<close>, for every \<open>k\<close>, \<open>softening\<close> and \<open>maxAccel\<close>: \<^verbatim>\<open>stepPhysics\<close> leaves
  the velocity exactly unchanged and sets the position to \<^verbatim>\<open>x + vx * dt\<close>,
  \<^verbatim>\<open>y + vy * dt\<close>; \<^verbatim>\<open>stepPhysicsRK4\<close> leaves the velocity exactly unchanged and sets the
  position to \<^verbatim>\<open>x + dt * ((vx + 2*vx + 2*vx + vx) / 6)\<close>, likewise \<open>y\<close>, as binary64
  evaluates these expressions (in exact arithmetic that is \<open>x + vx \<cdot> dt\<close>, the lemma
  above). Both set the acceleration to 0.
\<close>

theorem free_charge_straight_line64:
  assumes np: "\<not> pinned64 c"
    and damp: "nullish (damping64 opts) (Num 1) = Num 1"
    and dv: "isDouble (vx64 c)" "isDouble (vy64 c)"
    and dd: "isDouble dt"
  shows "stepPhysics64 [c] [] dt opts =
           [c\<lparr>ax64 := Num 0, ay64 := Num 0,
              x64 := x64 c + vx64 c * dt, y64 := y64 c + vy64 c * dt\<rparr>] \<and>
         stepPhysicsRK4_64 [c] [] dt opts =
           [c\<lparr>ax64 := Num 0, ay64 := Num 0,
              x64 := x64 c + dt * ((vx64 c + Num 2 * vx64 c + Num 2 * vx64 c + vx64 c) / Num 6),
              y64 := y64 c + dt * ((vy64 c + Num 2 * vy64 c + Num 2 * vy64 c + vy64 c) / Num 6)\<rparr>]"
proof -
  obtain cx cy cvx cvy cax cay cq cm cp where
    c: "c = \<lparr>x64 = cx, y64 = cy, vx64 = cvx, vy64 = cvy, ax64 = cax, ay64 = cay,
            q64 = cq, m64 = cm, pinned64 = cp\<rparr>"
    by (cases c) auto
  from dv obtain a b where v: "cvx = Num a" "cvy = Num b" and ra: "rnd a = Num a" and rb: "rnd b = Num b"
    unfolding c by (cases cvx; cases cvy) auto
  from dd obtain d where d: "dt = Num d" and rd: "rnd d = Num d"
    by (cases dt) auto
  from half_finite [of d] rd obtain h where h: "Num (1 / 2) * Num d = Num h"
    by auto
  have z: "Num a + Num 0 = Num a" "Num b + Num 0 = Num b" "Num a * Num 1 = Num a"
    "Num b * Num 1 = Num b" "Num h * Num 0 = Num 0" "Num d * Num 0 = Num 0"
    "Num 0 * Num d = Num 0" "Num 0 + Num 0 = Num 0" "Num 2 * Num 0 = Num 0"
    "Num 0 / Num 6 = Num 0"
    by (simp_all add: f64_ops ra rb)
  have p: "\<not> cp" using np by (simp add: c)
  have euler: "stepPhysics64 [c] [] dt opts =
           [c\<lparr>ax64 := Num 0, ay64 := Num 0,
              x64 := x64 c + vx64 c * dt, y64 := y64 c + vy64 c * dt\<rparr>]"
    unfolding stepPhysics64_def computeAccelerations64_single damp Let_def
    by (simp add: integrate64_def c v d p z)
  have rk: "stepPhysicsRK4_64 [c] [] dt opts =
           [c\<lparr>ax64 := Num 0, ay64 := Num 0,
              x64 := x64 c + dt * ((vx64 c + Num 2 * vx64 c + Num 2 * vx64 c + vx64 c) / Num 6),
              y64 := y64 c + dt * ((vy64 c + Num 2 * vy64 c + Num 2 * vy64 c + vy64 c) / Num 6)\<rparr>]"
    unfolding stepPhysicsRK4_64_def computeAccelerations64_single damp Let_def
    by (simp add: moveTo64_def combine64_def snapshot64_def stageDeriv64_def
          computeAccelerations64_single c v d p h z)
  from euler rk show ?thesis by simp
qed

theorem free_charge_straight_line64_witness:
  "\<not> pinned64 drifting64 \<and> nullish (damping64 undamped64) (Num 1) = Num 1 \<and>
   isDouble (vx64 drifting64) \<and> isDouble (vy64 drifting64) \<and> isDouble (Num 1) \<and>
   stepPhysics64 [drifting64] [] (Num 1) undamped64 =
     [drifting64\<lparr>x64 := Num (3602879701896397 / 36028797018963968)\<rparr>] \<and>
   stepPhysicsRK4_64 [drifting64] [] (Num 1) undamped64 =
     [drifting64\<lparr>x64 := Num (7205759403792793 / 72057594037927936)\<rparr>]"
proof -
  have h1: "\<not> pinned64 drifting64" by (simp add: drifting64_def)
  have h2: "nullish (damping64 undamped64) (Num 1) = Num 1"
    by (simp add: undamped64_def nullish_def)
  have h3: "isDouble (vx64 drifting64)" "isDouble (vy64 drifting64)" "isDouble (Num 1)"
    by (simp_all add: drifting64_def f64_values)
  show ?thesis
    using h1 h2 h3 free_charge_straight_line64 [OF h1 h2 h3]
    by (simp add: drifting64_def f64_ops f64_values)
qed

subsection \<open>The magnetic field\<close>


subsection \<open>The magnetic coupling\<close>

text \<open>
  C10, as stated: the acceleration that the magnetic loop of
  \<^verbatim>\<open>computeAccelerations\<close> adds to a charge is always exactly perpendicular to the
  charge's velocity. It fails in binary64, where \<open>fx\<close> and \<open>fy\<close> are rounded
  separately: for a charge \<^verbatim>\<open>q: 1.5\<close> at \<open>(1, 0)\<close> with velocity \<open>(3, 4)\<close> and a magnet
  of strength \<^verbatim>\<open>0.15\<close> at the origin (\<^verbatim>\<open>softening: 0\<close>, so that the field there is
  \<^verbatim>\<open>(0.29999999999999993, 0)\<close>), the added acceleration is
  \<^verbatim>\<open>(-1.7999999999999998, 1.3499999999999996)\<close> and its dot product with the velocity
  is \<open>-2\<^sup>-\<^sup>5\<^sup>0\<close>.
\<close>

theorem lorentz_perpendicular_counterexample:
  "computeAccelerations64 [moving64] [bar64] hard64 =
     [moving64\<lparr>ax64 := Num (- (2026619832316723 / 1125899906842624)),
               ay64 := Num (759982437118771 / 562949953421312)\<rparr>] \<and>
   - (2026619832316723 / 1125899906842624) * 3 + 759982437118771 / 562949953421312 * 4
     \<noteq> (0::real)"
  by (simp add: computeAccelerations64_def lorentzStep64_def totalMagneticFieldAt64_def
        magneticFieldAt64_def nullish_def Let_def f64_ops f64_values f64_samples)

text \<open>
  C10, amended: a charge with zero velocity, or one at a point where the total
  magnetic field is zero, receives no magnetic contribution at all, in binary64 as
  in exact arithmetic; and in exact arithmetic, for a charge of nonzero mass, the
  acceleration that the magnetic loop of \<^verbatim>\<open>computeAccelerations\<close> adds is perpendicular
  to the charge's velocity (its dot product with \<open>(vx, vy)\<close> is 0); in binary64
  the dot product need not be 0.
\<close>

theorem lorentz_perpendicular:
  "((vx64 c64 = Num 0 \<and> vy64 c64 = Num 0) \<or>
      totalMagneticFieldAt64 (x64 c64) (y64 c64) magnets64 opts64 = (Num 0, Num 0)
      \<longrightarrow> lorentzStep64 magnets64 opts64 c64 = c64) \<and>
   ((vx c = 0 \<and> vy c = 0) \<or> totalMagneticFieldAt (x c) (y c) magnets opts = (0, 0)
      \<longrightarrow> lorentzStep magnets opts c = c) \<and>
   (m c \<noteq> 0 \<longrightarrow>
      (ax (lorentzStep magnets opts c) - ax c) * vx c +
      (ay (lorentzStep magnets opts c) - ay c) * vy c = 0)"
proof -
  have f: "(vx64 c64 = Num 0 \<and> vy64 c64 = Num 0) \<or>
      totalMagneticFieldAt64 (x64 c64) (y64 c64) magnets64 opts64 = (Num 0, Num 0)
      \<longrightarrow> lorentzStep64 magnets64 opts64 c64 = c64"
    by (auto simp add: lorentzStep64_def Let_def less_f64_def)
  have r: "((vx c = 0 \<and> vy c = 0) \<or> totalMagneticFieldAt (x c) (y c) magnets opts = (0, 0)
      \<longrightarrow> lorentzStep magnets opts c = c) \<and>
      (ax (lorentzStep magnets opts c) - ax c) * vx c +
      (ay (lorentzStep magnets opts c) - ay c) * vy c = 0"
    by (auto simp add: lorentzStep_def Let_def hypot_pos_iff field_simps)
  from f r show ?thesis by blast
qed

lemma lorentzStep_demoFree:
  "lorentzStep [demoMagnet] demoOptions demoFree = demoFree\<lparr>ax := - 4, ay := 3\<rparr>"
  by (simp add: lorentzStep_def totalMagneticFieldAt_def magneticFieldAt_def hypot_def
        demoMagnet_def demoOptions_def demoFree_def nullish_def sqrt_25 Let_def)

theorem lorentz_perpendicular_witness:
  "vx64 unit64 = Num 0 \<and> vy64 unit64 = Num 0 \<and>
   lorentzStep64 [bar64] hard64 unit64 = unit64 \<and>
   vx demoRest = 0 \<and> vy demoRest = 0 \<and>
   lorentzStep [demoMagnet] demoOptions demoRest = demoRest \<and>
   m demoFree \<noteq> 0 \<and>
   (ax (lorentzStep [demoMagnet] demoOptions demoFree) - ax demoFree) * vx demoFree +
   (ay (lorentzStep [demoMagnet] demoOptions demoFree) - ay demoFree) * vy demoFree = 0"
proof -
  have h64: "vx64 unit64 = Num 0 \<and> vy64 unit64 = Num 0" by (simp add: unit64_def)
  have h: "vx demoRest = 0 \<and> vy demoRest = 0" by (simp add: demoRest_def)
  have hm: "m demoFree \<noteq> 0" by (simp add: demoFree_def)
  show ?thesis
    using h64 h hm
      lorentz_perpendicular [of unit64 "[bar64]" hard64 demoRest "[demoMagnet]" demoOptions]
      lorentz_perpendicular [of unit64 "[bar64]" hard64 demoFree "[demoMagnet]" demoOptions]
    by simp
qed

subsection \<open>The field of two opposite charges\<close>

lemma hypot_eq_iff: "hypot a b = hypot c d \<longleftrightarrow> a * a + b * b = c * c + d * d"
  by (simp add: hypot_def)

text \<open>
  C8, as stated: at a point equidistant from two charges \<open>q\<close> and \<open>-q\<close> the field
  \<^verbatim>\<open>electricFieldAt\<close> returns has no component across the line through the charges.
  It fails in binary64, where the two contributions are rounded before they are
  added: for \<^verbatim>\<open>q: 0.1\<close> at \<open>(0, 0)\<close> and \<^verbatim>\<open>q: -0.1\<close> at \<open>(3, 1)\<close>, both at distance 5
  from the point \<open>(0, 5)\<close>, with \<^verbatim>\<open>k: 1\<close> and \<^verbatim>\<open>softening: 0\<close>, the field is
  \<^verbatim>\<open>(0.0024000000000000002, 0.0007999999999999999)\<close>, and its cross product with the
  joining vector \<open>(3, 1)\<close> is \<open>2\<^sup>-\<^sup>6\<^sup>1\<close>, not 0.
\<close>

theorem dipole_field_counterexample:
  "electricFieldAt64 (Num 0) (Num 5) [dipolePlus64, dipoleMinus64] unsoftened64 =
     (Num (2767011611056433 / 1152921504606846976),
      Num (1844674407370955 / 2305843009213693952)) \<and>
   2767011611056433 / 1152921504606846976 * (1 - 0) -
   1844674407370955 / 2305843009213693952 * (3 - 0) \<noteq> (0::real)"
  by (simp add: electricFieldAt64_def efieldBody64_def nullish_def Let_def f64_ops f64_values
        f64_samples)

text \<open>
  C8, amended: in exact arithmetic, for every softening, every two charges of
  opposite charge \<open>q\<close> and \<open>-q\<close> and every point at the same distance from both (the
  softened distance not 0), the field \<^verbatim>\<open>electricFieldAt\<close> returns is parallel to the
  line through the charges: its cross product with the vector from one charge to
  the other is 0. In binary64 the cross product need not be 0.
\<close>

theorem dipole_field_along_axis:
  assumes "q c2 = - q c1"
    and "hypot (px - x c1) (py - y c1) = hypot (px - x c2) (py - y c2)"
    and "0 < (px - x c1)\<^sup>2 + (py - y c1)\<^sup>2 + (nullish (softening opts) (1 / 10))\<^sup>2"
  shows "fst (electricFieldAt px py [c1, c2] opts) * (y c2 - y c1) -
         snd (electricFieldAt px py [c1, c2] opts) * (x c2 - x c1) = 0"
proof -
  define eps where "eps = nullish (softening opts) (1 / 10)"
  define kk where "kk = nullish (k opts) 1"
  define r2 where "r2 = (px - x c1) * (px - x c1) + (py - y c1) * (py - y c1) + eps * eps"
  have r2': "(px - x c2) * (px - x c2) + (py - y c2) * (py - y c2) + eps * eps = r2"
    using assms(2) by (simp add: hypot_eq_iff r2_def)
  define w where "w = kk * q c1 * (1 / (sqrt r2 * r2))"
  have E: "electricFieldAt px py [c1, c2] opts =
      (w * (px - x c1) - w * (px - x c2), w * (py - y c1) - w * (py - y c2))"
    unfolding electricFieldAt_def efieldBody_def Let_def
    by (simp add: r2' eps_def [symmetric] kk_def [symmetric] r2_def [symmetric] assms(1) w_def)
  show ?thesis
    unfolding E by (simp add: algebra_simps)
qed

theorem dipole_field_along_axis_witness:
  "q \<lparr>x = 2, y = 0, vx = 0, vy = 0, ax = 0, ay = 0, q = - 1, m = 1, pinned = False\<rparr> = - q demoRest \<and>
   hypot (1 - x demoRest) (1 - y demoRest) = hypot (1 - 2) (1 - 0) \<and>
   0 < (1 - x demoRest)\<^sup>2 + (1 - y demoRest)\<^sup>2 + (nullish (softening demoOptions) (1 / 10))\<^sup>2 \<and>
   fst (electricFieldAt 1 1
          [demoRest, \<lparr>x = 2, y = 0, vx = 0, vy = 0, ax = 0, ay = 0, q = - 1, m = 1, pinned = False\<rparr>]
          demoOptions) * (0 - 0) -
   snd (electricFieldAt 1 1
          [demoRest, \<lparr>x = 2, y = 0, vx = 0, vy = 0, ax = 0, ay = 0, q = - 1, m = 1, pinned = False\<rparr>]
          demoOptions) * (2 - 0) = 0"
  using dipole_field_along_axis [of
      "\<lparr>x = 2, y = 0, vx = 0, vy = 0, ax = 0, ay = 0, q = - 1, m = 1, pinned = False\<rparr>"
      demoRest 1 1 demoOptions]
  by (simp add: demoRest_def demoOptions_def nullish_def hypot_def)

subsection \<open>The RK4 step\<close>











subsection \<open>The pair loop and the field\<close>

lemma pairIncs_cong:
  assumes "zeroAccel a = zeroAccel a1" "zeroAccel b = zeroAccel b1"
  shows "pairIncs kk soft a b = pairIncs kk soft a1 b1"
  using zeroAccel_eq_fields [OF assms(1)] zeroAccel_eq_fields [OF assms(2)]
  by (simp add: pairIncs_def pairForce_def)

lemma sq_diff_swap: "(u - v) * (u - v) = (v - u) * (v - (u::real))"
  by (simp add: algebra_simps)

lemma pairForce_swap:
  "pairForce kk soft b a = (- fst (pairForce kk soft a b), - snd (pairForce kk soft a b))"
proof -
  define w where
    "w = 1 / (sqrt ((x a - x b) * (x a - x b) + (y a - y b) * (y a - y b) + soft * soft) *
              ((x a - x b) * (x a - x b) + (y a - y b) * (y a - y b) + soft * soft))"
  have ab: "pairForce kk soft a b = (kk * q a * q b * w * (x a - x b), kk * q a * q b * w * (y a - y b))"
    by (simp add: pairForce_def Let_def w_def)
  have ba: "pairForce kk soft b a = (kk * q b * q a * w * (x b - x a), kk * q b * q a * w * (y b - y a))"
    unfolding pairForce_def Let_def sq_diff_swap [of "x b" "x a"] sq_diff_swap [of "y b" "y a"]
    by (simp add: w_def)
  show ?thesis
    unfolding ab ba by (simp add: algebra_simps)
qed

lemma pairIncs_swap: "snd (pairIncs kk soft a b) = fst (pairIncs kk soft b a)"
  by (simp add: pairIncs_def Let_def pairForce_swap [of kk soft b a])

lemma clampInc_id:
  "\<not> exceeds (hypot (fst inc) (snd inc)) cap \<Longrightarrow> clampInc cap inc = inc"
  by (cases cap) (simp_all add: Let_def)

lemma charge_eqI:
  assumes "zeroAccel a = zeroAccel b" "ax a = ax b" "ay a = ay b"
  shows "a = b"
  using assms zeroAccel_eq_fields [OF assms(1)] by (cases a, cases b) simp

lemma fold_accum:
  assumes step: "\<And>e cs. e \<in> set es \<Longrightarrow> P cs \<Longrightarrow> P (F e cs) \<and> g (F e cs) = g cs + d e"
    and "P cs"
  shows "P (fold F es cs) \<and> g (fold F es cs) = (g cs :: real) + sum_list (map d es)"
  using assms
proof (induction es arbitrary: cs)
  case Nil
  then show ?case by simp
next
  case (Cons e es)
  have s: "P (F e cs) \<and> g (F e cs) = g cs + d e"
    using Cons.prems by simp
  have "P (fold F es (F e cs)) \<and> g (fold F es (F e cs)) = g (F e cs) + sum_list (map d es)"
    using Cons.prems(1) s by (intro Cons.IH) simp_all
  with s show ?case by (simp add: add.assoc)
qed

lemma nth_accel_update:
  assumes "n < length cs"
  shows "ax (cs[i := (cs ! i)\<lparr>ax := ax (cs ! i) + u, ay := ay (cs ! i) + v\<rparr>] ! n) =
           ax (cs ! n) + (if n = i then u else 0)"
    and "ay (cs[i := (cs ! i)\<lparr>ax := ax (cs ! i) + u, ay := ay (cs ! i) + v\<rparr>] ! n) =
           ay (cs ! n) + (if n = i then v else 0)"
  using assms by (simp_all add: nth_list_update)

lemma pairStep_nth:
  assumes z: "map zeroAccel cs = zs"
    and i: "i < length zs" and j: "j < length zs"
    and na: "\<not> exceeds (hypot (fst (fst (pairIncs kk soft (zs ! i) (zs ! j))))
                               (snd (fst (pairIncs kk soft (zs ! i) (zs ! j))))) cap"
    and nb: "\<not> exceeds (hypot (fst (snd (pairIncs kk soft (zs ! i) (zs ! j))))
                               (snd (snd (pairIncs kk soft (zs ! i) (zs ! j))))) cap"
    and n: "n < length zs"
  shows "ax (pairStep kk soft cap i j cs ! n) =
           ax (cs ! n) + ((if n = i then fst (fst (pairIncs kk soft (zs ! i) (zs ! j))) else 0) +
                          (if n = j then fst (snd (pairIncs kk soft (zs ! i) (zs ! j))) else 0))"
    and "ay (pairStep kk soft cap i j cs ! n) =
           ay (cs ! n) + ((if n = i then snd (fst (pairIncs kk soft (zs ! i) (zs ! j))) else 0) +
                          (if n = j then snd (snd (pairIncs kk soft (zs ! i) (zs ! j))) else 0))"
proof -
  from z have l: "length cs = length zs" by (metis length_map)
  have zi: "zeroAccel (cs ! i) = zeroAccel (zs ! i)"
    using z i l by (metis nth_map zeroAccel_idem)
  have zj: "zeroAccel (cs ! j) = zeroAccel (zs ! j)"
    using z j l by (metis nth_map zeroAccel_idem)
  have I: "pairIncs kk soft (cs ! i) (cs ! j) = pairIncs kk soft (zs ! i) (zs ! j)"
    by (rule pairIncs_cong [OF zi zj])
  define u where "u = fst (pairIncs kk soft (zs ! i) (zs ! j))"
  define w where "w = snd (pairIncs kk soft (zs ! i) (zs ! j))"
  define cs1 where "cs1 = cs[i := (cs ! i)\<lparr>ax := ax (cs ! i) + fst u, ay := ay (cs ! i) + snd u\<rparr>]"
  have st: "pairStep kk soft cap i j cs =
      cs1[j := (cs1 ! j)\<lparr>ax := ax (cs1 ! j) + fst w, ay := ay (cs1 ! j) + snd w\<rparr>]"
    unfolding pairStep_def Let_def I clampInc_id [OF na] clampInc_id [OF nb] cs1_def u_def w_def
    by (rule refl)
  have n1: "n < length cs1" and n0: "n < length cs" using n l by (simp_all add: cs1_def)
  show "ax (pairStep kk soft cap i j cs ! n) =
           ax (cs ! n) + ((if n = i then fst (fst (pairIncs kk soft (zs ! i) (zs ! j))) else 0) +
                          (if n = j then fst (snd (pairIncs kk soft (zs ! i) (zs ! j))) else 0))"
    unfolding st nth_accel_update(1) [OF n1] unfolding cs1_def nth_accel_update(1) [OF n0]
    by (simp add: u_def w_def)
  show "ay (pairStep kk soft cap i j cs ! n) =
           ay (cs ! n) + ((if n = i then snd (fst (pairIncs kk soft (zs ! i) (zs ! j))) else 0) +
                          (if n = j then snd (snd (pairIncs kk soft (zs ! i) (zs ! j))) else 0))"
    unfolding st nth_accel_update(2) [OF n1] unfolding cs1_def nth_accel_update(2) [OF n0]
    by (simp add: u_def w_def)
qed

lemma inner_loop_accum:
  assumes nc: "\<And>j. i < j \<Longrightarrow> j < length zs \<Longrightarrow>
        \<not> exceeds (hypot (fst (fst (pairIncs kk soft (zs ! i) (zs ! j))))
                          (snd (fst (pairIncs kk soft (zs ! i) (zs ! j))))) cap \<and>
        \<not> exceeds (hypot (fst (snd (pairIncs kk soft (zs ! i) (zs ! j))))
                          (snd (snd (pairIncs kk soft (zs ! i) (zs ! j))))) cap"
    and i: "i < length zs" and n: "n < length zs"
    and z: "map zeroAccel cs = zs"
  shows "map zeroAccel (fold (pairStep kk soft cap i) [Suc i..<length zs] cs) = zs \<and>
         ax (fold (pairStep kk soft cap i) [Suc i..<length zs] cs ! n) =
           ax (cs ! n) +
           (\<Sum>j\<leftarrow>[Suc i..<length zs].
              (if n = i then fst (fst (pairIncs kk soft (zs ! i) (zs ! j))) else 0) +
              (if n = j then fst (snd (pairIncs kk soft (zs ! i) (zs ! j))) else 0))"
    and "ay (fold (pairStep kk soft cap i) [Suc i..<length zs] cs ! n) =
           ay (cs ! n) +
           (\<Sum>j\<leftarrow>[Suc i..<length zs].
              (if n = i then snd (fst (pairIncs kk soft (zs ! i) (zs ! j))) else 0) +
              (if n = j then snd (snd (pairIncs kk soft (zs ! i) (zs ! j))) else 0))"
proof -
  have stepx: "map zeroAccel (pairStep kk soft cap i j cs1) = zs \<and>
      ax (pairStep kk soft cap i j cs1 ! n) = ax (cs1 ! n) +
        ((if n = i then fst (fst (pairIncs kk soft (zs ! i) (zs ! j))) else 0) +
         (if n = j then fst (snd (pairIncs kk soft (zs ! i) (zs ! j))) else 0))"
    if "j \<in> set [Suc i..<length zs]" "map zeroAccel cs1 = zs" for j cs1
  proof -
    from that(1) have ij: "i < j" and j: "j < length zs" by simp_all
    from nc [OF ij j] pairStep_nth(1) [OF that(2) i j _ _ n] pairStep_frame that(2)
    show ?thesis by simp
  qed
  have stepy: "map zeroAccel (pairStep kk soft cap i j cs1) = zs \<and>
      ay (pairStep kk soft cap i j cs1 ! n) = ay (cs1 ! n) +
        ((if n = i then snd (fst (pairIncs kk soft (zs ! i) (zs ! j))) else 0) +
         (if n = j then snd (snd (pairIncs kk soft (zs ! i) (zs ! j))) else 0))"
    if "j \<in> set [Suc i..<length zs]" "map zeroAccel cs1 = zs" for j cs1
  proof -
    from that(1) have ij: "i < j" and j: "j < length zs" by simp_all
    from nc [OF ij j] pairStep_nth(2) [OF that(2) i j _ _ n] pairStep_frame that(2)
    show ?thesis by simp
  qed
  show "map zeroAccel (fold (pairStep kk soft cap i) [Suc i..<length zs] cs) = zs \<and>
         ax (fold (pairStep kk soft cap i) [Suc i..<length zs] cs ! n) =
           ax (cs ! n) +
           (\<Sum>j\<leftarrow>[Suc i..<length zs].
              (if n = i then fst (fst (pairIncs kk soft (zs ! i) (zs ! j))) else 0) +
              (if n = j then fst (snd (pairIncs kk soft (zs ! i) (zs ! j))) else 0))"
    by (rule fold_accum [where P = "\<lambda>cs. map zeroAccel cs = zs" and g = "\<lambda>cs. ax (cs ! n)",
          OF stepx z])
  show "ay (fold (pairStep kk soft cap i) [Suc i..<length zs] cs ! n) =
           ay (cs ! n) +
           (\<Sum>j\<leftarrow>[Suc i..<length zs].
              (if n = i then snd (fst (pairIncs kk soft (zs ! i) (zs ! j))) else 0) +
              (if n = j then snd (snd (pairIncs kk soft (zs ! i) (zs ! j))) else 0))"
    using fold_accum [where P = "\<lambda>cs. map zeroAccel cs = zs" and g = "\<lambda>cs. ay (cs ! n)",
          OF stepy z] by (rule conjunct2)
qed

lemma pairLoop_accum:
  assumes nc: "\<And>i j. i < j \<Longrightarrow> j < length zs \<Longrightarrow>
        \<not> exceeds (hypot (fst (fst (pairIncs kk soft (zs ! i) (zs ! j))))
                          (snd (fst (pairIncs kk soft (zs ! i) (zs ! j))))) cap \<and>
        \<not> exceeds (hypot (fst (snd (pairIncs kk soft (zs ! i) (zs ! j))))
                          (snd (snd (pairIncs kk soft (zs ! i) (zs ! j))))) cap"
    and n: "n < length zs"
    and z: "map zeroAccel cs = zs"
  shows "ax (pairLoop kk soft cap cs ! n) =
           ax (cs ! n) +
           (\<Sum>i\<leftarrow>[0..<length zs]. \<Sum>j\<leftarrow>[Suc i..<length zs].
              (if n = i then fst (fst (pairIncs kk soft (zs ! i) (zs ! j))) else 0) +
              (if n = j then fst (snd (pairIncs kk soft (zs ! i) (zs ! j))) else 0))"
    and "ay (pairLoop kk soft cap cs ! n) =
           ay (cs ! n) +
           (\<Sum>i\<leftarrow>[0..<length zs]. \<Sum>j\<leftarrow>[Suc i..<length zs].
              (if n = i then snd (fst (pairIncs kk soft (zs ! i) (zs ! j))) else 0) +
              (if n = j then snd (snd (pairIncs kk soft (zs ! i) (zs ! j))) else 0))"
proof -
  from z have l: "length cs = length zs" by (metis length_map)
  have stepx: "map zeroAccel (fold (pairStep kk soft cap i) [Suc i..<length zs] cs1) = zs \<and>
         ax (fold (pairStep kk soft cap i) [Suc i..<length zs] cs1 ! n) =
           ax (cs1 ! n) +
           (\<Sum>j\<leftarrow>[Suc i..<length zs].
              (if n = i then fst (fst (pairIncs kk soft (zs ! i) (zs ! j))) else 0) +
              (if n = j then fst (snd (pairIncs kk soft (zs ! i) (zs ! j))) else 0))"
    if "i \<in> set [0..<length zs]" "map zeroAccel cs1 = zs" for i cs1
  proof -
    from that(1) have i: "i < length zs" by simp
    show ?thesis by (rule inner_loop_accum(1) [OF nc i n that(2)])
  qed
  have stepy: "map zeroAccel (fold (pairStep kk soft cap i) [Suc i..<length zs] cs1) = zs \<and>
         ay (fold (pairStep kk soft cap i) [Suc i..<length zs] cs1 ! n) =
           ay (cs1 ! n) +
           (\<Sum>j\<leftarrow>[Suc i..<length zs].
              (if n = i then snd (fst (pairIncs kk soft (zs ! i) (zs ! j))) else 0) +
              (if n = j then snd (snd (pairIncs kk soft (zs ! i) (zs ! j))) else 0))"
    if "i \<in> set [0..<length zs]" "map zeroAccel cs1 = zs" for i cs1
  proof -
    from that(1) have i: "i < length zs" by simp
    from inner_loop_accum(1) [OF nc i n that(2)] inner_loop_accum(2) [OF nc i n that(2)]
    show ?thesis by simp
  qed
  show "ax (pairLoop kk soft cap cs ! n) =
           ax (cs ! n) +
           (\<Sum>i\<leftarrow>[0..<length zs]. \<Sum>j\<leftarrow>[Suc i..<length zs].
              (if n = i then fst (fst (pairIncs kk soft (zs ! i) (zs ! j))) else 0) +
              (if n = j then fst (snd (pairIncs kk soft (zs ! i) (zs ! j))) else 0))"
    unfolding pairLoop_def l
    using fold_accum [where P = "\<lambda>cs. map zeroAccel cs = zs" and g = "\<lambda>cs. ax (cs ! n)"
          and F = "\<lambda>i. fold (pairStep kk soft cap i) [Suc i..<length zs]",
          OF stepx z] by (rule conjunct2)
  show "ay (pairLoop kk soft cap cs ! n) =
           ay (cs ! n) +
           (\<Sum>i\<leftarrow>[0..<length zs]. \<Sum>j\<leftarrow>[Suc i..<length zs].
              (if n = i then snd (fst (pairIncs kk soft (zs ! i) (zs ! j))) else 0) +
              (if n = j then snd (snd (pairIncs kk soft (zs ! i) (zs ! j))) else 0))"
    unfolding pairLoop_def l
    using fold_accum [where P = "\<lambda>cs. map zeroAccel cs = zs" and g = "\<lambda>cs. ay (cs ! n)"
          and F = "\<lambda>i. fold (pairStep kk soft cap i) [Suc i..<length zs]",
          OF stepy z] by (rule conjunct2)
qed

lemma pair_sum_split:
  fixes a b :: "nat \<Rightarrow> nat \<Rightarrow> real"
  assumes "n < N"
  shows "(\<Sum>i\<leftarrow>[0..<N]. \<Sum>j\<leftarrow>[Suc i..<N].
            (if n = i then a i j else 0) + (if n = j then b i j else 0)) =
         (\<Sum>i\<in>{0..<n}. b i n) + (\<Sum>j\<in>{Suc n..<N}. a n j)"
proof -
  have inner: "(\<Sum>j\<in>{Suc i..<N}. (if n = i then a i j else 0) + (if n = j then b i j else 0)) =
      (if n = i then (\<Sum>j\<in>{Suc n..<N}. a n j) else 0) + (if i < n then b i n else 0)" for i
    using assms by (simp add: sum.distrib sum.delta')
  have low: "(\<Sum>i\<in>{0..<N}. if i < n then b i n else 0) = (\<Sum>i\<in>{0..<n}. b i n)"
  proof -
    have "{0..<N} \<inter> {i. i < n} = {0..<n}" using assms by auto
    then show ?thesis by (simp add: sum.If_cases)
  qed
  have diag: "(\<Sum>i\<in>{0..<N}. if n = i then (\<Sum>j\<in>{Suc n..<N}. a n j) else 0) =
      (\<Sum>j\<in>{Suc n..<N}. a n j)"
    using assms by (simp add: sum.delta')
  have "(\<Sum>i\<leftarrow>[0..<N]. \<Sum>j\<leftarrow>[Suc i..<N].
            (if n = i then a i j else 0) + (if n = j then b i j else 0)) =
        (\<Sum>i\<in>{0..<N}. \<Sum>j\<in>{Suc i..<N}.
            (if n = i then a i j else 0) + (if n = j then b i j else 0))"
    by (simp only: interv_sum_list_conv_sum_set_nat set_upt)
  also have "\<dots> = (\<Sum>i\<in>{0..<N}. (if n = i then (\<Sum>j\<in>{Suc n..<N}. a n j) else 0) +
                                (if i < n then b i n else 0))"
    by (simp only: inner)
  also have "\<dots> = (\<Sum>i\<in>{0..<N}. if n = i then (\<Sum>j\<in>{Suc n..<N}. a n j) else 0) +
                   (\<Sum>i\<in>{0..<N}. if i < n then b i n else 0)"
    by (rule sum.distrib)
  also have "\<dots> = (\<Sum>i\<in>{0..<n}. b i n) + (\<Sum>j\<in>{Suc n..<N}. a n j)"
    by (simp only: diag low add.commute)
  finally show ?thesis .
qed

lemma skip_sum_split:
  fixes t :: "nat \<Rightarrow> real"
  assumes "n < N"
  shows "(\<Sum>j\<leftarrow>[0..<N]. if n = j then 0 else t j) =
         (\<Sum>j\<in>{0..<n}. t j) + (\<Sum>j\<in>{Suc n..<N}. t j)"
proof -
  define g where "g = (\<lambda>j. if n = j then 0 else t j)"
  have "sum g {0..<N} = sum g {0..<n} + sum g {n..<N}"
    using assms by (simp add: sum.atLeastLessThan_concat)
  also have "sum g {n..<N} = g n + sum g {Suc n..<N}"
    using assms by (simp add: sum.atLeast_Suc_lessThan)
  also have "g n = 0" by (simp add: g_def)
  also have "sum g {0..<n} = sum t {0..<n}"
    by (rule sum.cong) (auto simp add: g_def)
  also have "sum g {Suc n..<N} = sum t {Suc n..<N}"
    by (rule sum.cong) (auto simp add: g_def)
  finally have "sum g {0..<N} = sum t {0..<n} + sum t {Suc n..<N}" by simp
  then show ?thesis
    by (simp only: interv_sum_list_conv_sum_set_nat set_upt g_def)
qed

lemma efieldBody_add:
  "efieldBody px py kk eps c E =
     (fst E + fst (efieldBody px py kk eps c (0, 0)), snd E + snd (efieldBody px py kk eps c (0, 0)))"
  by (simp add: efieldBody_def Let_def)

lemma pairIncs_field:
  "fst (pairIncs kk soft c oc) =
     (q c * fst (efieldBody (x c) (y c) kk soft oc (0, 0)) / m c,
      q c * snd (efieldBody (x c) (y c) kk soft oc (0, 0)) / m c)"
  by (simp add: pairIncs_def pairForce_def efieldBody_def Let_def mult.commute)

lemma efieldBody_cong:
  assumes "zeroAccel c = zeroAccel c1"
  shows "efieldBody px py kk eps c E = efieldBody px py kk eps c1 E"
  using zeroAccel_eq_fields [OF assms] by (simp add: efieldBody_def)

lemma fieldFromOthers_sum:
  "fieldFromOthers kk soft i cs =
     (\<Sum>j\<leftarrow>[0..<length cs].
         if i = j then 0 else fst (efieldBody (x (cs ! i)) (y (cs ! i)) kk soft (cs ! j) (0, 0)),
      \<Sum>j\<leftarrow>[0..<length cs].
         if i = j then 0 else snd (efieldBody (x (cs ! i)) (y (cs ! i)) kk soft (cs ! j) (0, 0)))"
proof -
  have body: "(\<lambda>j E. if i = j then E
                 else (let c = cs ! i;
                           oc = cs ! j;
                           dx = x c - x oc;
                           dy = y c - y oc;
                           r2 = dx * dx + dy * dy + soft * soft;
                           invR3 = 1 / (sqrt r2 * r2);
                           factor = kk * q oc * invR3
                       in (fst E + factor * dx, snd E + factor * dy))) =
     (\<lambda>j E. (fst E + (if i = j then 0
                        else fst (efieldBody (x (cs ! i)) (y (cs ! i)) kk soft (cs ! j) (0, 0))),
              snd E + (if i = j then 0
                        else snd (efieldBody (x (cs ! i)) (y (cs ! i)) kk soft (cs ! j) (0, 0)))))"
    by (intro ext) (simp add: efieldBody_def Let_def)
  show ?thesis
    unfolding fieldFromOthers_def body by (simp add: fold_add_pair)
qed

lemma fieldFromOthers_cong:
  assumes z: "map zeroAccel cs = zs" and i: "i < length zs"
  shows "fieldFromOthers kk soft i cs = fieldFromOthers kk soft i zs"
proof -
  from z have l: "length cs = length zs" by (metis length_map)
  have zn: "zeroAccel (cs ! n) = zeroAccel (zs ! n)" if "n < length zs" for n
    using z that l by (metis nth_map zeroAccel_idem)
  have xy: "x (cs ! i) = x (zs ! i)" "y (cs ! i) = y (zs ! i)"
    using zeroAccel_eq_fields [OF zn [OF i]] by simp_all
  have t: "efieldBody px py kk soft (cs ! j) E = efieldBody px py kk soft (zs ! j) E"
    if "j < length zs" for j px py E
    using that by (intro efieldBody_cong zn)
  have s1: "map (\<lambda>j. if i = j then 0
                     else fst (efieldBody (x (zs ! i)) (y (zs ! i)) kk soft (cs ! j) (0, 0)))
              [0..<length zs] =
            map (\<lambda>j. if i = j then 0
                     else fst (efieldBody (x (zs ! i)) (y (zs ! i)) kk soft (zs ! j) (0, 0)))
              [0..<length zs]"
    by (rule map_cong) (simp_all add: t)
  have s2: "map (\<lambda>j. if i = j then 0
                     else snd (efieldBody (x (zs ! i)) (y (zs ! i)) kk soft (cs ! j) (0, 0)))
              [0..<length zs] =
            map (\<lambda>j. if i = j then 0
                     else snd (efieldBody (x (zs ! i)) (y (zs ! i)) kk soft (zs ! j) (0, 0)))
              [0..<length zs]"
    by (rule map_cong) (simp_all add: t)
  show ?thesis
    unfolding fieldFromOthers_sum l xy s1 s2 by (rule refl)
qed

lemma fieldStep_frame: "map zeroAccel (fieldStep kk soft i cs) = map zeroAccel cs"
  by (simp add: fieldStep_def Let_def map_zeroAccel_update)

lemma fieldStep_nth:
  assumes z: "map zeroAccel cs = zs" and i: "i < length zs" and n: "n < length zs"
  shows "ax (fieldStep kk soft i cs ! n) =
           (if n = i then q (zs ! i) * fst (fieldFromOthers kk soft i zs) / m (zs ! i)
            else ax (cs ! n))"
    and "ay (fieldStep kk soft i cs ! n) =
           (if n = i then q (zs ! i) * snd (fieldFromOthers kk soft i zs) / m (zs ! i)
            else ay (cs ! n))"
proof -
  from z have l: "length cs = length zs" by (metis length_map)
  have zi: "zeroAccel (cs ! i) = zeroAccel (zs ! i)"
    using z i l by (metis nth_map zeroAccel_idem)
  have qm: "q (cs ! i) = q (zs ! i)" "m (cs ! i) = m (zs ! i)"
    using zeroAccel_eq_fields [OF zi] by simp_all
  show "ax (fieldStep kk soft i cs ! n) =
           (if n = i then q (zs ! i) * fst (fieldFromOthers kk soft i zs) / m (zs ! i)
            else ax (cs ! n))"
    using i n l
    by (simp add: fieldStep_def Let_def nth_list_update qm fieldFromOthers_cong [OF z i])
  show "ay (fieldStep kk soft i cs ! n) =
           (if n = i then q (zs ! i) * snd (fieldFromOthers kk soft i zs) / m (zs ! i)
            else ay (cs ! n))"
    using i n l
    by (simp add: fieldStep_def Let_def nth_list_update qm fieldFromOthers_cong [OF z i])
qed

lemma fieldLoop_nth:
  assumes "set es \<subseteq> {0..<length zs}" and "n < length zs" and "map zeroAccel cs = zs"
  shows "map zeroAccel (fold (fieldStep kk soft) es cs) = zs \<and>
         ax (fold (fieldStep kk soft) es cs ! n) =
           (if n \<in> set es then q (zs ! n) * fst (fieldFromOthers kk soft n zs) / m (zs ! n)
            else ax (cs ! n)) \<and>
         ay (fold (fieldStep kk soft) es cs ! n) =
           (if n \<in> set es then q (zs ! n) * snd (fieldFromOthers kk soft n zs) / m (zs ! n)
            else ay (cs ! n))"
  using assms
proof (induction es arbitrary: cs)
  case Nil
  then show ?case by simp
next
  case (Cons e es)
  from Cons.prems(1) have e: "e < length zs" and es: "set es \<subseteq> {0..<length zs}" by simp_all
  have z1: "map zeroAccel (fieldStep kk soft e cs) = zs"
    using Cons.prems(3) by (simp add: fieldStep_frame)
  note ih = Cons.IH [OF es Cons.prems(2) z1]
  note st = fieldStep_nth [OF Cons.prems(3) e Cons.prems(2), of kk soft]
  have "n = e \<or> n \<noteq> e" by simp
  then show ?case
  proof
    assume "n = e"
    with ih st show ?thesis by (cases "e \<in> set es") simp_all
  next
    assume "n \<noteq> e"
    with ih st show ?thesis by simp
  qed
qed

lemma pair_equals_field:
  assumes nc: "\<And>i j. i < j \<Longrightarrow> j < length zs \<Longrightarrow>
        \<not> exceeds (hypot (fst (fst (pairIncs kk soft (zs ! i) (zs ! j))))
                          (snd (fst (pairIncs kk soft (zs ! i) (zs ! j))))) cap \<and>
        \<not> exceeds (hypot (fst (snd (pairIncs kk soft (zs ! i) (zs ! j))))
                          (snd (snd (pairIncs kk soft (zs ! i) (zs ! j))))) cap"
    and n: "n < length zs"
    and z: "map zeroAccel cs = zs"
    and a0: "ax (cs ! n) = 0" "ay (cs ! n) = 0"
  shows "ax (pairLoop kk soft cap cs ! n) =
           q (zs ! n) * fst (fieldFromOthers kk soft n zs) / m (zs ! n)"
    and "ay (pairLoop kk soft cap cs ! n) =
           q (zs ! n) * snd (fieldFromOthers kk soft n zs) / m (zs ! n)"
proof -
  define tx where "tx = (\<lambda>j. fst (efieldBody (x (zs ! n)) (y (zs ! n)) kk soft (zs ! j) (0, 0)))"
  define ty where "ty = (\<lambda>j. snd (efieldBody (x (zs ! n)) (y (zs ! n)) kk soft (zs ! j) (0, 0)))"
  have ax_n: "fst (fst (pairIncs kk soft (zs ! n) (zs ! j))) = q (zs ! n) * tx j / m (zs ! n)"
    and ay_n: "snd (fst (pairIncs kk soft (zs ! n) (zs ! j))) = q (zs ! n) * ty j / m (zs ! n)"
    for j
    by (simp_all add: pairIncs_field tx_def ty_def)
  have bx_n: "fst (snd (pairIncs kk soft (zs ! i) (zs ! n))) = q (zs ! n) * tx i / m (zs ! n)"
    and by_n: "snd (snd (pairIncs kk soft (zs ! i) (zs ! n))) = q (zs ! n) * ty i / m (zs ! n)"
    for i
    by (simp_all only: pairIncs_swap ax_n ay_n)
  have fx: "fst (fieldFromOthers kk soft n zs) = sum tx {0..<n} + sum tx {Suc n..<length zs}"
    and fy: "snd (fieldFromOthers kk soft n zs) = sum ty {0..<n} + sum ty {Suc n..<length zs}"
    unfolding fieldFromOthers_sum fst_conv snd_conv tx_def ty_def
    by (rule skip_sum_split [OF n])+
  have "ax (pairLoop kk soft cap cs ! n) =
           ax (cs ! n) +
           (\<Sum>i\<leftarrow>[0..<length zs]. \<Sum>j\<leftarrow>[Suc i..<length zs].
              (if n = i then fst (fst (pairIncs kk soft (zs ! i) (zs ! j))) else 0) +
              (if n = j then fst (snd (pairIncs kk soft (zs ! i) (zs ! j))) else 0))"
    by (rule pairLoop_accum(1) [OF nc n z])
  also have "\<dots> = (\<Sum>i\<in>{0..<n}. fst (snd (pairIncs kk soft (zs ! i) (zs ! n)))) +
                   (\<Sum>j\<in>{Suc n..<length zs}. fst (fst (pairIncs kk soft (zs ! n) (zs ! j))))"
    unfolding a0 pair_sum_split [OF n] by simp
  also have "\<dots> = q (zs ! n) * fst (fieldFromOthers kk soft n zs) / m (zs ! n)"
    unfolding fx ax_n bx_n
    by (simp add: sum_distrib_left sum_divide_distrib distrib_left add_divide_distrib)
  finally show "ax (pairLoop kk soft cap cs ! n) =
           q (zs ! n) * fst (fieldFromOthers kk soft n zs) / m (zs ! n)" .
  have "ay (pairLoop kk soft cap cs ! n) =
           ay (cs ! n) +
           (\<Sum>i\<leftarrow>[0..<length zs]. \<Sum>j\<leftarrow>[Suc i..<length zs].
              (if n = i then snd (fst (pairIncs kk soft (zs ! i) (zs ! j))) else 0) +
              (if n = j then snd (snd (pairIncs kk soft (zs ! i) (zs ! j))) else 0))"
    by (rule pairLoop_accum(2) [OF nc n z])
  also have "\<dots> = (\<Sum>i\<in>{0..<n}. snd (snd (pairIncs kk soft (zs ! i) (zs ! n)))) +
                   (\<Sum>j\<in>{Suc n..<length zs}. snd (fst (pairIncs kk soft (zs ! n) (zs ! j))))"
    unfolding a0 pair_sum_split [OF n] by simp
  also have "\<dots> = q (zs ! n) * snd (fieldFromOthers kk soft n zs) / m (zs ! n)"
    unfolding fy ay_n by_n
    by (simp add: sum_distrib_left sum_divide_distrib distrib_left add_divide_distrib)
  finally show "ay (pairLoop kk soft cap cs ! n) =
           q (zs ! n) * snd (fieldFromOthers kk soft n zs) / m (zs ! n)" .
qed

lemma electricFieldAt_list:
  "electricFieldAt px py cs opts =
     (\<Sum>c\<leftarrow>cs. fst (efieldBody px py (nullish (k opts) 1) (nullish (softening opts) (1 / 10)) c (0, 0)),
      \<Sum>c\<leftarrow>cs. snd (efieldBody px py (nullish (k opts) 1) (nullish (softening opts) (1 / 10)) c (0, 0)))"
proof -
  have "efieldBody px py kk eps =
      (\<lambda>c E. (fst E + fst (efieldBody px py kk eps c (0, 0)),
               snd E + snd (efieldBody px py kk eps c (0, 0))))" for kk eps
    by (intro ext) (rule efieldBody_add)
  then have "fold (efieldBody px py kk eps) cs (0, 0) =
      (\<Sum>c\<leftarrow>cs. fst (efieldBody px py kk eps c (0, 0)),
       \<Sum>c\<leftarrow>cs. snd (efieldBody px py kk eps c (0, 0)))" for kk eps
    using fold_add_pair [of "\<lambda>c. fst (efieldBody px py kk eps c (0, 0))"
        "\<lambda>c. snd (efieldBody px py kk eps c (0, 0))" cs "(0, 0)"]
    by simp
  then show ?thesis by (simp add: electricFieldAt_def Let_def)
qed

lemma others_nth:
  assumes "i < length cs"
  shows "others i cs = map ((!) cs) ([0..<i] @ [Suc i..<length cs])"
proof -
  have "take i cs = take i (map ((!) cs) [0..<length cs])" by (simp add: map_nth)
  also have "\<dots> = map ((!) cs) [0..<i]"
    using assms by (simp add: take_map)
  finally have t: "take i cs = map ((!) cs) [0..<i]" .
  have "drop (Suc i) cs = drop (Suc i) (map ((!) cs) [0..<length cs])" by (simp add: map_nth)
  also have "\<dots> = map ((!) cs) [Suc i..<length cs]"
    by (simp add: drop_map)
  finally have d: "drop (Suc i) cs = map ((!) cs) [Suc i..<length cs]" .
  show ?thesis by (simp add: others_def t d)
qed

lemma electricFieldAt_others:
  assumes "i < length cs"
  shows "electricFieldAt (x (cs ! i)) (y (cs ! i)) (others i cs) opts =
         fieldFromOthers (nullish (k opts) 1) (nullish (softening opts) (1 / 10)) i cs"
  unfolding electricFieldAt_list fieldFromOthers_sum others_nth [OF assms] skip_sum_split [OF assms]
  by (simp add: interv_sum_list_conv_sum_set_nat o_def)

lemma integrate_accel [simp]:
  "ax (integrate damp dt p) = ax p" "ay (integrate damp dt p) = ay p"
  by (simp_all add: integrate_def Let_def)

lemma noClampFires_Infinity: "maxAccel opts = Some Infinity \<Longrightarrow> noClampFires charges opts"
  by (simp add: noClampFires_def nullish_def)

lemma pairLoop_fieldLoop:
  assumes nc: "noClampFires charges opts"
  shows "pairLoop (nullish (k opts) 1) (nullish (softening opts) (1 / 10))
           (nullish (maxAccel opts) (Finite 2000)) (map zeroAccel charges) =
         fold (fieldStep (nullish (k opts) 1) (nullish (softening opts) (1 / 10)))
           [0..<length charges] (map zeroAccel charges)"
proof -
  define kk where "kk = nullish (k opts) 1"
  define soft where "soft = nullish (softening opts) (1 / 10)"
  define cap where "cap = nullish (maxAccel opts) (Finite 2000)"
  define zs where "zs = map zeroAccel charges"
  have l: "length zs = length charges" by (simp add: zs_def)
  have zz: "map zeroAccel zs = zs" by (simp add: zs_def)
  have inc: "pairIncs kk soft (zs ! i) (zs ! j) = pairIncs kk soft (charges ! i) (charges ! j)"
    if "i < length zs" "j < length zs" for i j
    using that by (intro pairIncs_cong) (simp_all add: zs_def)
  have nc': "\<not> exceeds (hypot (fst (fst (pairIncs kk soft (zs ! i) (zs ! j))))
                          (snd (fst (pairIncs kk soft (zs ! i) (zs ! j))))) cap \<and>
        \<not> exceeds (hypot (fst (snd (pairIncs kk soft (zs ! i) (zs ! j))))
                          (snd (snd (pairIncs kk soft (zs ! i) (zs ! j))))) cap"
    if "i < j" "j < length zs" for i j
  proof -
    from that have i: "i < length zs" by simp
    from that l i have "i \<in> {0..<length charges}" "j \<in> {Suc i..<length charges}" by simp_all
    with nc have "\<not> exceeds (hypot (fst (fst (pairIncs kk soft (charges ! i) (charges ! j))))
                          (snd (fst (pairIncs kk soft (charges ! i) (charges ! j))))) cap \<and>
        \<not> exceeds (hypot (fst (snd (pairIncs kk soft (charges ! i) (charges ! j))))
                          (snd (snd (pairIncs kk soft (charges ! i) (charges ! j))))) cap"
      unfolding noClampFires_def kk_def soft_def cap_def by blast
    then show ?thesis by (simp add: inc [OF i that(2)])
  qed
  define P where "P = pairLoop kk soft cap zs"
  define F where "F = fold (fieldStep kk soft) [0..<length zs] zs"
  have zP: "map zeroAccel P = zs"
    unfolding P_def using pairLoop_frame [of kk soft cap zs] zz by simp
  have zF: "map zeroAccel F = zs"
    unfolding F_def using fold_frame [of "fieldStep kk soft", OF fieldStep_frame] zz by simp
  have lP: "length P = length zs" using zP by (metis length_map)
  have lF: "length F = length zs" using zF by (metis length_map)
  have "P = F"
  proof (rule nth_equalityI)
    show "length P = length F" by (simp add: lP lF)
    fix n
    assume "n < length P"
    then have n: "n < length zs" by (simp add: lP)
    have a0: "ax (zs ! n) = 0" "ay (zs ! n) = 0"
      using n by (simp_all add: zs_def zeroAccel_def)
    have zn: "zeroAccel (P ! n) = zeroAccel (F ! n)"
      using zP zF n lP lF by (metis nth_map)
    have sub: "set [0..<length zs] \<subseteq> {0..<length zs}" by simp
    have mem: "n \<in> set [0..<length zs]" using n by simp
    have fl: "ax (F ! n) = q (zs ! n) * fst (fieldFromOthers kk soft n zs) / m (zs ! n)"
      "ay (F ! n) = q (zs ! n) * snd (fieldFromOthers kk soft n zs) / m (zs ! n)"
      unfolding F_def using fieldLoop_nth [OF sub n zz, of kk soft] mem by simp_all
    show "P ! n = F ! n"
      by (rule charge_eqI [OF zn])
        (simp_all only: P_def pair_equals_field [OF nc' n zz a0] fl)
  qed
  then show ?thesis
    by (simp only: P_def F_def kk_def soft_def cap_def zs_def l length_map)
qed

text \<open>
  C6, as stated: with no magnets and no clamp firing, \<^verbatim>\<open>stepPhysics\<close> produces exactly
  the acceleration, velocity and position of \<^verbatim>\<open>stepPhysicsUsingFields\<close>. It fails in
  binary64, where the pair loop rounds \<^verbatim>\<open>k * a.q * b.q * invR3 * dx / a.m\<close> and the
  field loop rounds \<^verbatim>\<open>c.q * (k * o.q * invR3 * dx) / c.m\<close>: for two charges at rest,
  \<^verbatim>\<open>q: 0.1\<close> at \<open>(0, 0)\<close> and \<^verbatim>\<open>q: 0.7\<close> at \<open>(3, 0)\<close>, of mass 1, with \<^verbatim>\<open>k: 1\<close>,
  \<^verbatim>\<open>softening: 0\<close>, \<^verbatim>\<open>maxAccel: Infinity\<close>, \<^verbatim>\<open>damping: 1\<close> and \<open>dt = 1\<close>, the first
  charge gets \<^verbatim>\<open>ax = -0.007777777777777776\<close> from \<^verbatim>\<open>stepPhysics\<close> and
  \<^verbatim>\<open>ax = -0.007777777777777777\<close> from \<^verbatim>\<open>stepPhysicsUsingFields\<close>.
\<close>

theorem pairwise_matches_fields_counterexample:
  "ax64 (stepPhysics64 [pairLeft64, pairRight64] [] (Num 1) unclamped64 ! 0) =
     Num (- (2241791814513313 / 288230376151711744)) \<and>
   ax64 (stepPhysicsUsingFields64 [pairLeft64, pairRight64] (Num 1) unclamped64 ! 0) =
     Num (- (8967167258053253 / 1152921504606846976)) \<and>
   stepPhysics64 [pairLeft64, pairRight64] [] (Num 1) unclamped64 \<noteq>
   stepPhysicsUsingFields64 [pairLeft64, pairRight64] (Num 1) unclamped64"
  by (simp add: stepPhysics64_def stepPhysicsUsingFields64_def computeAccelerations64_def
        pairStep64_def lorentzStep64_def totalMagneticFieldAt64_def fieldStep64_def
        fieldFromOthers64_def integrate64_def nullish_def Let_def upt_two f64_ops f64_values
        f64_samples)

text \<open>
  C6, amended: in exact arithmetic, with no magnets, a \<^verbatim>\<open>maxAccel\<close> that no pair
  increment exceeds (for instance \<^verbatim>\<open>Infinity\<close>), no mass 0 and no two charges at
  softened distance 0, \<^verbatim>\<open>stepPhysics\<close> returns the same array as
  \<^verbatim>\<open>stepPhysicsUsingFields\<close>: the same acceleration, velocity and position for every
  charge. The acceleration of charge \<open>i\<close> is \<open>q\<^sub>i \<cdot> E / m\<^sub>i\<close> with \<open>E\<close> the value of
  \<^verbatim>\<open>electricFieldAt\<close> at the charge's position before the step, over the other
  charges, with the same \<open>k\<close> and \<open>softening\<close>. In binary64 the two arrays need not
  be equal.
\<close>

theorem pairwise_matches_fields:
  assumes "noClampFires charges opts" and "nonSingular charges opts"
  shows "stepPhysics charges [] dt opts = stepPhysicsUsingFields charges dt opts \<and>
         (\<forall>i < length charges.
            ax (stepPhysics charges [] dt opts ! i) =
              q (charges ! i) *
              fst (electricFieldAt (x (charges ! i)) (y (charges ! i)) (others i charges) opts) /
              m (charges ! i) \<and>
            ay (stepPhysics charges [] dt opts ! i) =
              q (charges ! i) *
              snd (electricFieldAt (x (charges ! i)) (y (charges ! i)) (others i charges) opts) /
              m (charges ! i))"
proof -
  define kk where "kk = nullish (k opts) 1"
  define soft where "soft = nullish (softening opts) (1 / 10)"
  define zs where "zs = map zeroAccel charges"
  define F where "F = fold (fieldStep kk soft) [0..<length charges] zs"
  have lz: "length zs = length charges" by (simp add: zs_def)
  have zz: "map zeroAccel zs = zs" by (simp add: zs_def)
  have noL: "map (lorentzStep [] opts) cs = cs" for cs
    by (induction cs) simp_all
  have euler: "stepPhysics charges [] dt opts = map (integrate (nullish (damping opts) 1) dt) F"
    unfolding stepPhysics_def computeAccelerations_def Let_def noL
      pairLoop_fieldLoop [OF assms(1)] F_def kk_def soft_def zs_def
    by (rule refl)
  have fields: "stepPhysicsUsingFields charges dt opts =
      map (integrate (nullish (damping opts) 1) dt) F"
    unfolding stepPhysicsUsingFields_def Let_def F_def kk_def soft_def zs_def by (rule refl)
  have acc: "ax (stepPhysics charges [] dt opts ! i) =
              q (charges ! i) *
              fst (electricFieldAt (x (charges ! i)) (y (charges ! i)) (others i charges) opts) /
              m (charges ! i) \<and>
            ay (stepPhysics charges [] dt opts ! i) =
              q (charges ! i) *
              snd (electricFieldAt (x (charges ! i)) (y (charges ! i)) (others i charges) opts) /
              m (charges ! i)"
    if i: "i < length charges" for i
  proof -
    have iz: "i < length zs" using i by (simp add: lz)
    have sub: "set [0..<length charges] \<subseteq> {0..<length zs}" by (simp add: lz)
    have mem: "i \<in> set [0..<length charges]" using i by simp
    have lF: "length F = length charges"
      unfolding F_def using fold_frame [of "fieldStep kk soft", OF fieldStep_frame] lz
      by (metis length_map)
    have fl: "ax (F ! i) = q (zs ! i) * fst (fieldFromOthers kk soft i zs) / m (zs ! i)"
      "ay (F ! i) = q (zs ! i) * snd (fieldFromOthers kk soft i zs) / m (zs ! i)"
      unfolding F_def using fieldLoop_nth [OF sub iz zz, of kk soft] mem by simp_all
    have qm: "q (zs ! i) = q (charges ! i)" "m (zs ! i) = m (charges ! i)"
      using i by (simp_all add: zs_def zeroAccel_def)
    have E: "fieldFromOthers kk soft i zs =
        electricFieldAt (x (charges ! i)) (y (charges ! i)) (others i charges) opts"
      unfolding electricFieldAt_others [OF i] kk_def soft_def
      by (rule fieldFromOthers_cong [symmetric]) (simp_all add: zs_def i)
    show ?thesis
      unfolding euler using i lF by (simp add: fl qm E)
  qed
  show ?thesis
    using acc by (simp add: euler fields)
qed

theorem pairwise_matches_fields_witness:
  "noClampFires [demoFree, demoRest, demoPinned] demoOptions \<and>
   nonSingular [demoFree, demoRest, demoPinned] demoOptions \<and>
   stepPhysics [demoFree, demoRest, demoPinned] [] 1 demoOptions =
     stepPhysicsUsingFields [demoFree, demoRest, demoPinned] 1 demoOptions \<and>
   noClampFires [demoFree, demoRest]
     \<lparr>k = Some 1, softening = Some 0, damping = None, maxAccel = None\<rparr> \<and>
   nonSingular [demoFree, demoRest]
     \<lparr>k = Some 1, softening = Some 0, damping = None, maxAccel = None\<rparr> \<and>
   stepPhysics [demoFree, demoRest] [] 1
     \<lparr>k = Some 1, softening = Some 0, damping = None, maxAccel = None\<rparr> =
     stepPhysicsUsingFields [demoFree, demoRest] 1
     \<lparr>k = Some 1, softening = Some 0, damping = None, maxAccel = None\<rparr>"
proof -
  have h: "noClampFires [demoFree, demoRest, demoPinned] demoOptions"
    by (simp add: noClampFires_def demoOptions_def nullish_def)
  have n: "nonSingular [demoFree, demoRest, demoPinned] demoOptions"
    by (simp add: nonSingular_def atLeastLessThanSuc demoFree_def demoRest_def demoPinned_def
          demoOptions_def nullish_def)
  have inc: "pairIncs 1 0 demoFree demoRest = ((1 / 2, 0), (- (1 / 2), 0))"
    by (simp add: pairIncs_def pairForce_def Let_def demoRest_def demoFree_def)
  have mag: "hypot (1 / 2) 0 = 1 / 2" "hypot (- (1 / 2)) 0 = 1 / 2"
    by (simp_all add: hypot_def real_sqrt_divide)
  have h2: "noClampFires [demoFree, demoRest]
     \<lparr>k = Some 1, softening = Some 0, damping = None, maxAccel = None\<rparr>"
    by (simp add: noClampFires_def nullish_def atLeastLessThanSuc inc mag)
  have n2: "nonSingular [demoFree, demoRest]
     \<lparr>k = Some 1, softening = Some 0, damping = None, maxAccel = None\<rparr>"
    by (simp add: nonSingular_def atLeastLessThanSuc demoFree_def demoRest_def nullish_def)
  show ?thesis
    using h n h2 n2 pairwise_matches_fields [OF h n, of 1] pairwise_matches_fields [OF h2 n2, of 1]
    by simp
qed

end
